theory Spec2Isabelle
  imports Main
begin

section \<open>Values: JSON, Python truthiness, \<open>int()\<close>\<close>

text \<open>
  The token set is a Python \<open>Dict[str, Any]\<close> that comes out of \<open>json.loads\<close> or
  \<open>response.json()\<close>. A value is therefore any JSON value; \<open>None\<close> is \<open>JNull\<close>.
  A dict keeps its insertion order, so an object is an association list.
  JSON numbers with a fraction or an exponent (Python floats) are left out of the model.
\<close>

datatype json =
    JNull
  | JBool bool
  | JInt int
  | JStr string
  | JArr "json list"
  | JObj "(string \<times> json) list"

datatype level = INFO | WARNING | ERROR

datatype gcp_exception =
    NotFound          \<comment> \<open>\<open>gcp_exceptions.NotFound\<close>, a \<open>GoogleAPICallError\<close>\<close>
  | APICallError      \<comment> \<open>any other subclass of \<open>GoogleAPICallError\<close>\<close>
  | OtherGCPError     \<comment> \<open>an exception outside \<open>GoogleAPICallError\<close> (\<open>RetryError\<close>, transport)\<close>

datatype error =
    RuntimeError string
  | ValueError
  | TypeError
  | AttributeError
  | OSError
  | OverflowError
  | UnicodeDecodeError
  | EOFError
  | ConfigError string          \<comment> \<open>\<open>config.require(key)\<close> on a key that has no value\<close>
  | RequestException            \<comment> \<open>\<open>requests.post\<close> raising (connection, timeout)\<close>
  | ResponseNotJSON             \<comment> \<open>\<open>response.json()\<close> raising\<close>
  | GCPError gcp_exception

text \<open>Python's \<open>bool(v)\<close>, which \<open>if v\<close>, \<open>not v\<close> and \<open>v or w\<close> consult.\<close>

fun truthy :: "json \<Rightarrow> bool" where
  "truthy JNull = False"
| "truthy (JBool b) = b"
| "truthy (JInt n) = (n \<noteq> 0)"
| "truthy (JStr s) = (s \<noteq> [])"
| "truthy (JArr xs) = (xs \<noteq> [])"
| "truthy (JObj kvs) = (kvs \<noteq> [])"

text \<open>\<open>a or b\<close> where \<open>b\<close> may raise: \<open>b\<close> is evaluated only when \<open>a\<close> is falsy.\<close>

definition py_or :: "json \<Rightarrow> (error + json) \<Rightarrow> error + json" where
  "py_or a b = (if truthy a then Inr a else b)"

text \<open>
  \<open>d.get(key)\<close>: the value, \<open>None\<close> for a missing key, and \<open>AttributeError\<close> when
  \<open>d\<close> is not a dict (a list, a string, a number and \<open>None\<close> have no \<open>get\<close>).
\<close>

fun dict_get :: "json \<Rightarrow> string \<Rightarrow> error + json" where
  "dict_get (JObj kvs) k = (case map_of kvs k of None \<Rightarrow> Inr JNull | Some v \<Rightarrow> Inr v)"
| "dict_get _ k = Inl AttributeError"

text \<open>\<open>d[key] = v\<close> on a dict: a new key goes last, an old one keeps its place.\<close>

fun dict_set :: "(string \<times> json) list \<Rightarrow> string \<Rightarrow> json \<Rightarrow> (string \<times> json) list" where
  "dict_set [] k v = [(k, v)]"
| "dict_set ((k', v') # kvs) k v =
     (if k' = k then (k, v) # kvs else (k', v') # dict_set kvs k v)"

subsection \<open>\<open>int(x)\<close>\<close>

text \<open>
  A character is a code point below 256; text with other code points is outside the
  model. \<open>str.strip()\<close> removes the characters for which \<open>str.isspace()\<close> holds;
  \<open>int()\<close> skips a smaller set, without the four separators \<open>0x1C\<close> to \<open>0x1F\<close>.
\<close>

definition is_space :: "char \<Rightarrow> bool" where
  "is_space c = (c \<in> set [CHR 0x09, CHR 0x0A, CHR 0x0B, CHR 0x0C, CHR 0x0D,
                            CHR 0x1C, CHR 0x1D, CHR 0x1E, CHR 0x1F, CHR 0x20,
                            CHR 0x85, CHR 0xA0])"

definition is_int_space :: "char \<Rightarrow> bool" where
  "is_int_space c = (c \<in> set [CHR 0x09, CHR 0x0A, CHR 0x0B, CHR 0x0C, CHR 0x0D, CHR 0x20,
                                CHR 0x85, CHR 0xA0])"

definition strip_with :: "(char \<Rightarrow> bool) \<Rightarrow> string \<Rightarrow> string" where
  "strip_with sp s = rev (dropWhile sp (rev (dropWhile sp s)))"

definition py_strip :: "string \<Rightarrow> string" where
  "py_strip s = strip_with is_space s"

definition is_digit :: "char \<Rightarrow> bool" where
  "is_digit c = (48 \<le> (of_char c :: nat) \<and> (of_char c :: nat) \<le> 57)"

definition digit_val :: "char \<Rightarrow> int" where
  "digit_val c = int (of_char c) - 48"

text \<open>
  The digits after the first one; one underscore may stand between two digits
  (\<open>int("21_600") = 21600\<close>).
\<close>

fun digits :: "int \<Rightarrow> string \<Rightarrow> int option" where
  "digits acc [] = Some acc"
| "digits acc [c] = (if is_digit c then Some (10 * acc + digit_val c) else None)"
| "digits acc (c # d # cs) =
     (if is_digit c then digits (10 * acc + digit_val c) (d # cs)
      else if c = CHR ''_'' \<and> is_digit d then digits (10 * acc + digit_val d) cs
      else None)"

definition unsigned_of_str :: "string \<Rightarrow> int option" where
  "unsigned_of_str s =
     (case s of [] \<Rightarrow> None
      | c # cs \<Rightarrow> if is_digit c then digits (digit_val c) cs else None)"

text \<open>
  \<open>int(s)\<close> for a string, base 10: surrounding whitespace is skipped, one sign is
  allowed, then the digits. Anything else is a \<open>ValueError\<close>, and so is a literal of
  more than 4300 digits (the default \<open>sys.get_int_max_str_digits()\<close> of CPython 3.11;
  underscores and the sign do not count).
\<close>

definition MAX_STR_DIGITS :: nat where
  "MAX_STR_DIGITS = 4300"

definition int_of_str :: "string \<Rightarrow> error + int" where
  "int_of_str s =
     (let t = strip_with is_int_space s;
          (neg, body) = (case t of
                           [] \<Rightarrow> (False, t)
                         | c # cs \<Rightarrow> if c = CHR ''-'' then (True, cs)
                                    else if c = CHR ''+'' then (False, cs)
                                    else (False, t))
      in case unsigned_of_str body of
           None \<Rightarrow> Inl ValueError
         | Some n \<Rightarrow> if MAX_STR_DIGITS < length (filter is_digit body) then Inl ValueError
                     else Inr (if neg then - n else n))"

fun py_int :: "json \<Rightarrow> error + int" where
  "py_int (JInt n) = Inr n"
| "py_int (JBool b) = Inr (if b then 1 else 0)"
| "py_int (JStr s) = int_of_str s"
| "py_int JNull = Inl TypeError"
| "py_int (JArr xs) = Inl TypeError"
| "py_int (JObj kvs) = Inl TypeError"

section \<open>Stored text\<close>

text \<open>
  The code looks at a stored string in two ways only: whether it is empty
  (\<open>if not payload\<close>, which also holds for \<open>None\<close>) and what \<open>json.loads\<close> makes
  of it. A string is modelled by exactly that: the empty string, a non-empty string that
  \<open>json.loads\<close> rejects, or a string that \<open>json.loads\<close> reads as the value \<open>v\<close>;
  \<open>json.dumps(v, indent=2)\<close> is such a string. Secret payloads are bytes that may fail
  to decode as UTF-8.
\<close>

datatype pystr = Empty_str | Garbled | Dumps json

datatype bytes = Undecodable | Encoded pystr

fun json_loads :: "pystr \<Rightarrow> json option" where
  "json_loads Empty_str = None"
| "json_loads Garbled = None"
| "json_loads (Dumps v) = Some v"

definition json_dumps :: "json \<Rightarrow> pystr" where
  "json_dumps v = Dumps v"

fun decode :: "bytes \<Rightarrow> error + pystr" where
  "decode Undecodable = Inl UnicodeDecodeError"
| "decode (Encoded t) = Inr t"

section \<open>Secret Manager, as the client sees it\<close>

text \<open>
  The remote secret store of \<open>gcp_secret_storage.py\<close>: per secret name the versions in
  the order they were added. A version's name stands for
  \<open>projects/P/secrets/NAME/versions/N\<close>. Each call may fail for reasons of the
  service; which calls fail is an input (\<open>faults\<close>).
\<close>

datatype version_state = ENABLED | DISABLED | DESTROYED

type_synonym version_name = "string \<times> nat"

record secret_version =
  vname :: version_name
  vstate :: version_state
  vdata :: bytes

type_synonym secret_manager = "string \<Rightarrow> secret_version list option"

record faults =
  get_secret_fault :: "gcp_exception option"
  create_secret_fault :: "gcp_exception option"
  add_version_fault :: "gcp_exception option"
  list_versions_fault :: "gcp_exception option"
  disable_fault :: "version_name \<Rightarrow> gcp_exception option"
  access_fault :: "gcp_exception option"

text \<open>
  The calls of \<open>SecretManagerServiceClient\<close> that the wrapper makes. The service is
  outside the repository; each call is given the behaviour its name promises: \<open>get_secret\<close>
  raises \<open>NotFound\<close> for an unknown secret, \<open>create_secret\<close> creates it without
  versions, \<open>add_secret_version\<close> appends an enabled version and returns its name,
  \<open>list_secret_versions\<close> returns the versions, \<open>disable_secret_version\<close> disables the
  named version, and reading \<open>versions/latest\<close> returns the payload of the newest
  version. A fault, when one is set for the call, is raised instead.
\<close>

text \<open>\<open>except gcp_exceptions.GoogleAPICallError\<close> catches these.\<close>

fun is_api_call_error :: "gcp_exception \<Rightarrow> bool" where
  "is_api_call_error NotFound = True"
| "is_api_call_error APICallError = True"
| "is_api_call_error OtherGCPError = False"

definition get_secret :: "faults \<Rightarrow> secret_manager \<Rightarrow> string \<Rightarrow> gcp_exception + unit" where
  "get_secret f sm n =
     (case get_secret_fault f of
        Some e \<Rightarrow> Inl e
      | None \<Rightarrow> (case sm n of None \<Rightarrow> Inl NotFound | Some vs \<Rightarrow> Inr ()))"

definition create_secret ::
  "faults \<Rightarrow> secret_manager \<Rightarrow> string \<Rightarrow> (gcp_exception + unit) \<times> secret_manager" where
  "create_secret f sm n =
     (case create_secret_fault f of
        Some e \<Rightarrow> (Inl e, sm)
      | None \<Rightarrow> (case sm n of
                   Some vs \<Rightarrow> (Inl APICallError, sm)
                 | None \<Rightarrow> (Inr (), sm(n \<mapsto> []))))"

definition add_secret_version ::
  "faults \<Rightarrow> secret_manager \<Rightarrow> string \<Rightarrow> bytes
     \<Rightarrow> (gcp_exception + version_name) \<times> secret_manager" where
  "add_secret_version f sm n data =
     (case add_version_fault f of
        Some e \<Rightarrow> (Inl e, sm)
      | None \<Rightarrow> (case sm n of
                   None \<Rightarrow> (Inl NotFound, sm)
                 | Some vs \<Rightarrow>
                     (let v = \<lparr>vname = (n, Suc (length vs)), vstate = ENABLED, vdata = data\<rparr>
                      in (Inr (vname v), sm(n \<mapsto> vs @ [v])))))"

text \<open>The service lists the newest version first.\<close>

definition list_secret_versions ::
  "faults \<Rightarrow> secret_manager \<Rightarrow> string \<Rightarrow> gcp_exception + secret_version list" where
  "list_secret_versions f sm n =
     (case list_versions_fault f of
        Some e \<Rightarrow> Inl e
      | None \<Rightarrow> (case sm n of None \<Rightarrow> Inl NotFound | Some vs \<Rightarrow> Inr (rev vs)))"

definition set_disabled :: "version_name \<Rightarrow> secret_version \<Rightarrow> secret_version" where
  "set_disabled vn v = (if vname v = vn \<and> vstate v = ENABLED then v\<lparr>vstate := DISABLED\<rparr> else v)"

definition disable_secret_version ::
  "faults \<Rightarrow> secret_manager \<Rightarrow> version_name \<Rightarrow> (gcp_exception + unit) \<times> secret_manager" where
  "disable_secret_version f sm vn =
     (case disable_fault f vn of
        Some e \<Rightarrow> (Inl e, sm)
      | None \<Rightarrow> (case sm (fst vn) of
                   None \<Rightarrow> (Inl NotFound, sm)
                 | Some vs \<Rightarrow>
                     if vn \<in> set (map vname vs)
                     then (Inr (), sm(fst vn \<mapsto> map (set_disabled vn) vs))
                     else (Inl NotFound, sm)))"

text \<open>
  \<open>versions/latest\<close> is the version added last; it can be read while it is enabled.
\<close>

definition access_latest :: "faults \<Rightarrow> secret_manager \<Rightarrow> string \<Rightarrow> gcp_exception + bytes" where
  "access_latest f sm n =
     (case access_fault f of
        Some e \<Rightarrow> Inl e
      | None \<Rightarrow> (case sm n of
                   None \<Rightarrow> Inl NotFound
                 | Some vs \<Rightarrow>
                     if vs = [] then Inl NotFound
                     else if vstate (last vs) = ENABLED then Inr (vdata (last vs))
                     else Inl APICallError))"

subsection \<open>\<open>GCPSecretStorage\<close>\<close>

text \<open>\<open>GCPSecretStorage(project_id)\<close>: the constructor refuses an empty project id.\<close>

definition GCPSecretStorage :: "string \<Rightarrow> error + unit" where
  "GCPSecretStorage project_id = (if project_id = [] then Inl ValueError else Inr ())"

definition ensure_secret ::
  "faults \<Rightarrow> secret_manager \<Rightarrow> string \<Rightarrow> (gcp_exception + unit) \<times> secret_manager" where
  "ensure_secret f sm n =
     (case get_secret f sm n of
        Inr u \<Rightarrow> (Inr (), sm)
      | Inl NotFound \<Rightarrow> create_secret f sm n
      | Inl e \<Rightarrow> (Inl e, sm))"

text \<open>
  The loop of \<open>_disable_prior_versions\<close> over the listed versions: the kept version is
  skipped, so is a version the listing does not show as enabled; a
  \<open>GoogleAPICallError\<close> from one \<open>disable_secret_version\<close> is swallowed and the loop goes on,
  any other exception leaves it.
\<close>

fun disable_each ::
  "faults \<Rightarrow> version_name \<Rightarrow> secret_version list \<Rightarrow> secret_manager
     \<Rightarrow> (gcp_exception + unit) \<times> secret_manager" where
  "disable_each f keep [] sm = (Inr (), sm)"
| "disable_each f keep (v # vs) sm =
     (if vname v = keep then disable_each f keep vs sm
      else if vstate v = ENABLED then
        (case disable_secret_version f sm (vname v) of
           (Inr u, sm') \<Rightarrow> disable_each f keep vs sm'
         | (Inl e, sm') \<Rightarrow>
             if is_api_call_error e then disable_each f keep vs sm' else (Inl e, sm'))
      else disable_each f keep vs sm)"

definition disable_prior_versions ::
  "faults \<Rightarrow> secret_manager \<Rightarrow> string \<Rightarrow> version_name
     \<Rightarrow> (gcp_exception + unit) \<times> secret_manager" where
  "disable_prior_versions f sm n keep_version =
     (case list_secret_versions f sm n of
        Inl e \<Rightarrow> if is_api_call_error e then (Inr (), sm) else (Inl e, sm)
      | Inr versions \<Rightarrow> disable_each f keep_version versions sm)"

definition write_secret ::
  "faults \<Rightarrow> secret_manager \<Rightarrow> string \<Rightarrow> bytes
     \<Rightarrow> (gcp_exception + version_name) \<times> secret_manager" where
  "write_secret f sm n data =
     (case ensure_secret f sm n of
        (Inl e, sm1) \<Rightarrow> (Inl e, sm1)
      | (Inr u, sm1) \<Rightarrow>
          (case add_secret_version f sm1 n data of
             (Inl e, sm2) \<Rightarrow> (Inl e, sm2)
           | (Inr response_name, sm2) \<Rightarrow>
               (case disable_prior_versions f sm2 n response_name of
                  (Inl e, sm3) \<Rightarrow> (Inl e, sm3)
                | (Inr u', sm3) \<Rightarrow> (Inr response_name, sm3))))"

text \<open>\<open>read_secret\<close>: \<open>None\<close> for \<open>NotFound\<close>; every other exception propagates.\<close>

definition read_secret :: "faults \<Rightarrow> secret_manager \<Rightarrow> string \<Rightarrow> error + pystr option" where
  "read_secret f sm n =
     (case access_latest f sm n of
        Inl NotFound \<Rightarrow> Inr None
      | Inl e \<Rightarrow> Inl (GCPError e)
      | Inr data \<Rightarrow> (case decode data of Inl e \<Rightarrow> Inl e | Inr t \<Rightarrow> Inr (Some t)))"

section \<open>The process and its surroundings\<close>

text \<open>
  \<open>config\<close> is the \<open>ConfigManager\<close>: \<open>require(key)\<close> returns the value or raises,
  \<open>get(key, default)\<close> returns the default for a missing key.
\<close>

type_synonym config = "string \<Rightarrow> string option"

definition require :: "config \<Rightarrow> string \<Rightarrow> error + string" where
  "require cfg k = (case cfg k of None \<Rightarrow> Inl (ConfigError k) | Some v \<Rightarrow> Inr v)"

text \<open>The token file: absent, present but unreadable, or holding a string.\<close>

datatype file_state = Missing | Unreadable | Holds pystr

text \<open>
  What \<open>requests.post\<close> does: it raises, or returns a response with a status code and a
  body that \<open>response.json()\<close> can read (\<open>Some\<close>) or not.
\<close>

datatype post_result = Post_raises | Response nat "json option"

text \<open>
  The effects in the order the code performs them. \<open>Commit\<close> is the assignment to
  \<open>self._tokens\<close>; \<open>File_write\<close> and \<open>Secret_write\<close> are the calls of
  \<open>_write_tokens_file\<close> and \<open>write_secret\<close>, whether or not they succeed.
\<close>

datatype event =
    Http_post string json     \<comment> \<open>grant type, and the refresh token or code sent\<close>
  | Commit json
  | File_write json
  | Secret_write string json
  | Log level string
  | Sleep int

record state =
  tokens :: json                 \<comment> \<open>\<open>self._tokens\<close>\<close>
  token_file :: file_state       \<comment> \<open>the file at \<open>self._token_file\<close>\<close>
  secrets :: secret_manager
  trace :: "event list"

text \<open>What the surroundings do during one operation.\<close>

record env =
  post :: post_result            \<comment> \<open>the answer of the token endpoint\<close>
  clock :: int                   \<comment> \<open>\<open>int(time.time())\<close>\<close>
  file_write_fails :: bool       \<comment> \<open>\<open>mkdir\<close> or \<open>write_text\<close> raises \<open>OSError\<close>\<close>
  gcp_faults :: faults
  stdin_line :: "string option"  \<comment> \<open>the line \<open>input()\<close> reads, \<open>None\<close> at end of input\<close>
  monotonic_ns :: nat            \<comment> \<open>the monotonic clock, in nanoseconds, when \<open>time.sleep\<close> is called\<close>

text \<open>The fields of a \<open>TokenRotator\<close> that \<open>__init__\<close> fixes.\<close>

record rotator =
  rconfig :: config
  tokens_secret_name :: string
  rotation_interval_seconds :: int

definition emit :: "event \<Rightarrow> state \<Rightarrow> state" where
  "emit ev st = st\<lparr>trace := trace st @ [ev]\<rparr>"

definition DEFAULT_ROTATION_INTERVAL :: int where
  "DEFAULT_ROTATION_INTERVAL = 4 * 60 * 60"

text \<open>\<open>response.raise_for_status()\<close> raises for the 4xx and 5xx codes.\<close>

definition raise_for_status :: "nat \<Rightarrow> bool" where
  "raise_for_status status = (400 \<le> status \<and> status < 600)"

section \<open>\<open>rotator.py\<close>\<close>

text \<open>
  The methods of \<open>TokenRotator\<close> under their names, without the leading underscore.
  Each takes the state and returns it with the result; an exception is the \<open>Inl\<close> of
  the result. Log lines are events with the format string of the call.
\<close>

definition no_access_token_message :: string where
  "no_access_token_message = ''No access_token returned by MercadoLibre''"

definition no_tokens_message :: string where
  "no_tokens_message =
     ''No existing tokens found. Run the initializer to obtain the first token set.''"

definition loop_failed_message :: string where
  "loop_failed_message = ''Token refresh failed: %s''"

definition refreshed_message :: string where
  "refreshed_message =
     ''Tokens refreshed; latest version enabled and prior versions disabled in GCP''"

definition load_tokens_from_file :: "state \<Rightarrow> json \<times> state" where
  "load_tokens_from_file st =
     (case token_file st of
        Missing \<Rightarrow> (JObj [], st)
      | Unreadable \<Rightarrow> (JObj [], emit (Log WARNING ''Failed to read tokens from %s: %s'') st)
      | Holds t \<Rightarrow>
          (case json_loads t of
             None \<Rightarrow> (JObj [], emit (Log WARNING ''Failed to read tokens from %s: %s'') st)
           | Some v \<Rightarrow> (v, st)))"

definition load_tokens_from_secret :: "rotator \<Rightarrow> env \<Rightarrow> state \<Rightarrow> (error + json) \<times> state" where
  "load_tokens_from_secret self e st =
     (case read_secret (gcp_faults e) (secrets st) (tokens_secret_name self) of
        Inl err \<Rightarrow> (Inl err, st)
      | Inr None \<Rightarrow> (Inr (JObj []), st)
      | Inr (Some t) \<Rightarrow>
          if t = Empty_str then (Inr (JObj []), st)
          else (case json_loads t of
                  None \<Rightarrow> (Inr (JObj []),
                            emit (Log ERROR ''Secret %s exists but is not valid JSON: %s'') st)
                | Some v \<Rightarrow> (Inr v, st)))"

text \<open>
  \<open>_write_tokens_file\<close>: the file is replaced with \<open>json.dumps(token_data, indent=2)\<close>; a
  failing write raises before the old content is touched.
\<close>

definition write_tokens_file :: "env \<Rightarrow> json \<Rightarrow> state \<Rightarrow> (error + unit) \<times> state" where
  "write_tokens_file e token_data st =
     (let st1 = emit (File_write token_data) st
      in if file_write_fails e then (Inl OSError, st1)
         else (Inr (), st1\<lparr>token_file := Holds (json_dumps token_data)\<rparr>))"

text \<open>The method \<open>TokenRotator._bootstrap_tokens\<close>.\<close>

definition rotator_bootstrap_tokens :: "rotator \<Rightarrow> env \<Rightarrow> state \<Rightarrow> (error + json) \<times> state" where
  "rotator_bootstrap_tokens self e st =
     (case load_tokens_from_file st of
        (tokens1, st1) \<Rightarrow>
          if truthy tokens1 then (Inr tokens1, st1)
          else (case load_tokens_from_secret self e st1 of
                  (Inl err, st2) \<Rightarrow> (Inl err, st2)
                | (Inr tokens2, st2) \<Rightarrow>
                    if truthy tokens2 then
                      (case write_tokens_file e tokens2 st2 of
                         (Inl err, st3) \<Rightarrow> (Inl err, st3)
                       | (Inr u, st3) \<Rightarrow> (Inr tokens2, st3))
                    else (Inl (RuntimeError no_tokens_message), st2)))"

text \<open>
  \<open>TokenRotator.__init__\<close>: the required keys in the order the code asks for them, the
  interval, the storage client, then \<open>self._tokens = self._bootstrap_tokens()\<close>.
\<close>

definition TokenRotator_init :: "config \<Rightarrow> env \<Rightarrow> state \<Rightarrow> (error + rotator) \<times> state" where
  "TokenRotator_init cfg e st =
     (case require cfg ''MELI_APP_ID'' of Inl err \<Rightarrow> (Inl err, st) | Inr app_id \<Rightarrow>
     (case require cfg ''MELI_CLIENT_SECRET'' of Inl err \<Rightarrow> (Inl err, st) | Inr client_secret \<Rightarrow>
     (case require cfg ''MELI_TOKENS_SECRET_NAME'' of Inl err \<Rightarrow> (Inl err, st) | Inr secret_name \<Rightarrow>
     (case require cfg ''GCP_PROJECT_ID'' of Inl err \<Rightarrow> (Inl err, st) | Inr project_id \<Rightarrow>
     (case (case cfg ''ROTATION_INTERVAL_SECONDS'' of
              None \<Rightarrow> Inr DEFAULT_ROTATION_INTERVAL
            | Some s \<Rightarrow> int_of_str s) of Inl err \<Rightarrow> (Inl err, st) | Inr interval \<Rightarrow>
     (case GCPSecretStorage project_id of Inl err \<Rightarrow> (Inl err, st) | Inr u \<Rightarrow>
       (let self = \<lparr>rconfig = cfg, tokens_secret_name = secret_name,
                    rotation_interval_seconds = interval\<rparr>
        in case rotator_bootstrap_tokens self e st of
             (Inl err, st1) \<Rightarrow> (Inl err, st1)
           | (Inr tokens0, st1) \<Rightarrow> (Inr self, st1\<lparr>tokens := tokens0\<rparr>))))))))"

definition request_refresh :: "env \<Rightarrow> json \<Rightarrow> state \<Rightarrow> (error + json) \<times> state" where
  "request_refresh e refresh_token st =
     (let st1 = emit (Http_post ''refresh_token'' refresh_token) st
      in case post e of
           Post_raises \<Rightarrow> (Inl RequestException, st1)
         | Response status body \<Rightarrow>
             if raise_for_status status
             then (Inl (RuntimeError ''Token refresh failed''),
                   emit (Log ERROR ''Refresh request failed: %s'') st1)
             else (case body of
                     None \<Rightarrow> (Inl ResponseNotJSON, st1)
                   | Some v \<Rightarrow> (Inr v, st1)))"

text \<open>
  Line 112 of \<open>refresh_once\<close>:
  \<open>self._tokens.get("refresh_token") or self._config.require("MELI_REFRESH_TOKEN")\<close>.
\<close>

definition refresh_token_to_use :: "rotator \<Rightarrow> state \<Rightarrow> error + json" where
  "refresh_token_to_use self st =
     (case dict_get (tokens st) ''refresh_token'' of
        Inl err \<Rightarrow> Inl err
      | Inr v \<Rightarrow>
          py_or v (case require (rconfig self) ''MELI_REFRESH_TOKEN'' of
                     Inl err \<Rightarrow> Inl err
                   | Inr s \<Rightarrow> Inr (JStr s)))"

text \<open>Lines 118 to 125: the dict literal \<open>token_data\<close>.\<close>

definition token_data_literal :: "json \<Rightarrow> json \<Rightarrow> int \<Rightarrow> error + (string \<times> json) list" where
  "token_data_literal payload refresh_token now =
     (case dict_get payload ''access_token'' of Inl err \<Rightarrow> Inl err | Inr a \<Rightarrow>
     (case dict_get payload ''refresh_token'' of Inl err \<Rightarrow> Inl err | Inr r \<Rightarrow>
     (case dict_get payload ''token_type'' of Inl err \<Rightarrow> Inl err | Inr t \<Rightarrow>
     (case dict_get payload ''scope'' of Inl err \<Rightarrow> Inl err | Inr s \<Rightarrow>
     (case dict_get payload ''expires_in'' of Inl err \<Rightarrow> Inl err | Inr x \<Rightarrow>
       Inr [(''access_token'', a),
            (''refresh_token'', if truthy r then r else refresh_token),
            (''token_type'', t),
            (''scope'', s),
            (''expires_in'', x),
            (''updated_at'', JInt now)])))))"

text \<open>Lines 127 to 129: \<open>expires_at\<close> is added when \<open>expires_in\<close> is truthy.\<close>

definition add_expires_at ::
  "json \<Rightarrow> int \<Rightarrow> (string \<times> json) list \<Rightarrow> error + (string \<times> json) list" where
  "add_expires_at payload now token_data =
     (case dict_get payload ''expires_in'' of
        Inl err \<Rightarrow> Inl err
      | Inr expires_in \<Rightarrow>
          if truthy expires_in then
            (case py_int expires_in of
               Inl err \<Rightarrow> Inl err
             | Inr n \<Rightarrow> Inr (dict_set token_data ''expires_at'' (JInt (now + n))))
          else Inr token_data)"

text \<open>
  Lines 134 to 140: the assignment to \<open>self._tokens\<close>, the file, the secret, the log line.
\<close>

definition commit_and_persist :: "rotator \<Rightarrow> env \<Rightarrow> json \<Rightarrow> state \<Rightarrow> (error + json) \<times> state" where
  "commit_and_persist self e token_data st =
     (let st1 = emit (Commit token_data) (st\<lparr>tokens := token_data\<rparr>)
      in case write_tokens_file e token_data st1 of
           (Inl err, st2) \<Rightarrow> (Inl err, st2)
         | (Inr u, st2) \<Rightarrow>
             (let st3 = emit (Secret_write (tokens_secret_name self) token_data) st2
              in case write_secret (gcp_faults e) (secrets st3) (tokens_secret_name self)
                        (Encoded (json_dumps token_data)) of
                   (Inl err, sm) \<Rightarrow> (Inl (GCPError err), st3\<lparr>secrets := sm\<rparr>)
                 | (Inr version, sm) \<Rightarrow>
                     (Inr token_data,
                      emit (Log INFO refreshed_message) (st3\<lparr>secrets := sm\<rparr>))))"

definition refresh_once :: "rotator \<Rightarrow> env \<Rightarrow> state \<Rightarrow> (error + json) \<times> state" where
  "refresh_once self e st =
     (case refresh_token_to_use self st of
        Inl err \<Rightarrow> (Inl err, st)
      | Inr refresh_token \<Rightarrow>
          (case request_refresh e refresh_token st of
             (Inl err, st1) \<Rightarrow> (Inl err, st1)
           | (Inr payload, st1) \<Rightarrow>
               (let now = clock e
                in case token_data_literal payload refresh_token now of
                     Inl err \<Rightarrow> (Inl err, st1)
                   | Inr td0 \<Rightarrow>
                       (case add_expires_at payload now td0 of
                          Inl err \<Rightarrow> (Inl err, st1)
                        | Inr token_data \<Rightarrow>
                            (case dict_get (JObj token_data) ''access_token'' of
                               Inl err \<Rightarrow> (Inl err, st1)
                             | Inr a \<Rightarrow>
                                 if \<not> truthy a
                                 then (Inl (RuntimeError no_access_token_message), st1)
                                 else commit_and_persist self e (JObj token_data) st1)))))"

text \<open>
  \<open>time.sleep(d)\<close> for an integer \<open>d\<close>, as CPython 3.11 does it on Linux. The
  duration is turned into nanoseconds in a signed 64-bit integer: \<open>OverflowError\<close> when it
  does not fit. A negative duration is a \<open>ValueError\<close>. The deadline is the monotonic
  clock plus the duration; when that sum leaves the 64 bits, \<open>clock_nanosleep\<close> refuses
  the deadline and \<open>OSError\<close> is raised. Otherwise the call sleeps and returns.
\<close>

definition INT64_MAX :: int where
  "INT64_MAX = 9223372036854775807"

definition INT64_MIN :: int where
  "INT64_MIN = - 9223372036854775808"

definition SEC_TO_NS :: int where
  "SEC_TO_NS = 1000000000"

definition sleep :: "env \<Rightarrow> int \<Rightarrow> state \<Rightarrow> (error + unit) \<times> state" where
  "sleep e d st =
     (if INT64_MAX < d * SEC_TO_NS \<or> d * SEC_TO_NS < INT64_MIN then (Inl OverflowError, st)
      else if d < 0 then (Inl ValueError, st)
      else if INT64_MAX < int (monotonic_ns e) + d * SEC_TO_NS then (Inl OSError, st)
      else (Inr (), emit (Sleep d) st))"

text \<open>
  \<open>interval_seconds or self.rotation_interval_seconds or DEFAULT_ROTATION_INTERVAL\<close>.
\<close>

definition loop_interval :: "rotator \<Rightarrow> int option \<Rightarrow> int" where
  "loop_interval self interval_seconds =
     (case interval_seconds of
        Some n \<Rightarrow> if n \<noteq> 0 then n
                  else if rotation_interval_seconds self \<noteq> 0 then rotation_interval_seconds self
                  else DEFAULT_ROTATION_INTERVAL
      | None \<Rightarrow> if rotation_interval_seconds self \<noteq> 0 then rotation_interval_seconds self
                else DEFAULT_ROTATION_INTERVAL)"

text \<open>
  The \<open>while True\<close> of \<open>run_forever\<close>, run for as many cycles as there are environments
  in the list. The result is \<open>Some err\<close> when an exception left the loop, and \<open>None\<close>
  when the loop is still running after the last supplied cycle.
\<close>

fun run_cycles :: "rotator \<Rightarrow> int \<Rightarrow> env list \<Rightarrow> state \<Rightarrow> error option \<times> state" where
  "run_cycles self interval [] st = (None, st)"
| "run_cycles self interval (e # es) st =
     (case refresh_once self e st of
        (Inl exc, st1) \<Rightarrow>
          (case sleep e (min 600 interval) (emit (Log ERROR loop_failed_message) st1) of
             (Inl err, st2) \<Rightarrow> (Some err, st2)
           | (Inr u, st2) \<Rightarrow> run_cycles self interval es st2)
      | (Inr token_data, st1) \<Rightarrow>
          (case sleep e interval st1 of
             (Inl err, st2) \<Rightarrow> (Some err, st2)
           | (Inr u, st2) \<Rightarrow> run_cycles self interval es st2))"

definition run_forever :: "rotator \<Rightarrow> int option \<Rightarrow> env list \<Rightarrow> state \<Rightarrow> error option \<times> state" where
  "run_forever self interval_seconds es st =
     run_cycles self (loop_interval self interval_seconds) es st"

section \<open>\<open>initializer.py\<close>\<close>

definition AUTH_URL :: string where
  "AUTH_URL = ''https://auth.mercadolibre.cl/authorization''"

definition build_auth_url :: "string \<Rightarrow> string \<Rightarrow> string" where
  "build_auth_url app_id redirect_uri =
     AUTH_URL @ ''?response_type=code&client_id='' @ app_id @ ''&redirect_uri='' @ redirect_uri"

text \<open>
  \<open>if not auth_code: ... auth_code = input(...).strip()\<close>: the code given by the caller,
  or else the line typed at the prompt.
\<close>

definition prompt_auth_code :: "env \<Rightarrow> error + string" where
  "prompt_auth_code e = (case stdin_line e of None \<Rightarrow> Inl EOFError | Some l \<Rightarrow> Inr (py_strip l))"

definition obtain_auth_code :: "string option \<Rightarrow> env \<Rightarrow> error + string" where
  "obtain_auth_code auth_code e =
     (case auth_code of
        None \<Rightarrow> prompt_auth_code e
      | Some c \<Rightarrow> if c = [] then prompt_auth_code e else Inr c)"

text \<open>Lines 63 to 80: the exchange of the code at the token endpoint.\<close>

definition exchange_code :: "env \<Rightarrow> string \<Rightarrow> state \<Rightarrow> (error + json) \<times> state" where
  "exchange_code e auth_code st =
     (let st1 = emit (Http_post ''authorization_code'' (JStr auth_code))
                  (emit (Log INFO ''Intercambiando code por tokens...'') st)
      in case post e of
           Post_raises \<Rightarrow> (Inl RequestException, st1)
         | Response status body \<Rightarrow>
             if raise_for_status status
             then (Inl (RuntimeError ''Failed to exchange authorization code''),
                   emit (Log ERROR ''Exchange failed: %s'') st1)
             else (case body of
                     None \<Rightarrow> (Inl ResponseNotJSON, st1)
                   | Some v \<Rightarrow> (Inr v, st1)))"

text \<open>Lines 81 to 86: the file, the storage client, the secret, the log line.\<close>

definition persist_bootstrap ::
  "env \<Rightarrow> string \<Rightarrow> string \<Rightarrow> json \<Rightarrow> state \<Rightarrow> (error + json) \<times> state" where
  "persist_bootstrap e project_id secret_name tokens0 st =
     (case write_tokens_file e tokens0 st of
        (Inl err, st1) \<Rightarrow> (Inl err, st1)
      | (Inr u, st1) \<Rightarrow>
          (case GCPSecretStorage project_id of
             Inl err \<Rightarrow> (Inl err, st1)
           | Inr u' \<Rightarrow>
               (let st2 = emit (Secret_write secret_name tokens0) st1
                in case write_secret (gcp_faults e) (secrets st2) secret_name
                          (Encoded (json_dumps tokens0)) of
                     (Inl err, sm) \<Rightarrow> (Inl (GCPError err), st2\<lparr>secrets := sm\<rparr>)
                   | (Inr version, sm) \<Rightarrow>
                       (Inr tokens0,
                        emit (Log INFO ''Tokens guardados en %s y sincronizados en GCP'')
                          (st2\<lparr>secrets := sm\<rparr>)))))"

definition bootstrap_tokens ::
  "config \<Rightarrow> string option \<Rightarrow> env \<Rightarrow> state \<Rightarrow> (error + json) \<times> state" where
  "bootstrap_tokens cfg auth_code e st =
     (case require cfg ''MELI_APP_ID'' of Inl err \<Rightarrow> (Inl err, st) | Inr app_id \<Rightarrow>
     (case require cfg ''MELI_CLIENT_SECRET'' of Inl err \<Rightarrow> (Inl err, st) | Inr client_secret \<Rightarrow>
     (case require cfg ''MELI_REDIRECT_URI'' of Inl err \<Rightarrow> (Inl err, st) | Inr redirect_uri \<Rightarrow>
     (case require cfg ''MELI_TOKENS_SECRET_NAME'' of Inl err \<Rightarrow> (Inl err, st) | Inr secret_name \<Rightarrow>
     (case require cfg ''GCP_PROJECT_ID'' of Inl err \<Rightarrow> (Inl err, st) | Inr project_id \<Rightarrow>
     (case obtain_auth_code auth_code e of Inl err \<Rightarrow> (Inl err, st) | Inr code \<Rightarrow>
       if code = [] then (Inl (RuntimeError ''No auth code provided; cannot bootstrap tokens.''), st)
       else (case exchange_code e code st of
               (Inl err, st1) \<Rightarrow> (Inl err, st1)
             | (Inr tokens0, st1) \<Rightarrow> persist_bootstrap e project_id secret_name tokens0 st1)))))))"

section \<open>\<open>token_access.py\<close>\<close>

definition quoted :: "string \<Rightarrow> string" where
  "quoted s = CHR 0x27 # s @ [CHR 0x27]"

definition not_found_message :: "string \<Rightarrow> string \<Rightarrow> string" where
  "not_found_message secret_name project_id =
     ''Secret '' @ quoted secret_name @ '' not found in project '' @ quoted project_id"

definition invalid_json_message :: "string \<Rightarrow> string" where
  "invalid_json_message secret_name =
     ''Secret '' @ quoted secret_name @ '' contains invalid JSON; refresh the token first''"

definition get_token_payload :: "config \<Rightarrow> faults \<Rightarrow> state \<Rightarrow> error + json" where
  "get_token_payload cfg f st =
     (case require cfg ''MELI_TOKENS_SECRET_NAME'' of Inl err \<Rightarrow> Inl err | Inr secret_name \<Rightarrow>
     (case require cfg ''GCP_PROJECT_ID'' of Inl err \<Rightarrow> Inl err | Inr project_id \<Rightarrow>
     (case GCPSecretStorage project_id of Inl err \<Rightarrow> Inl err | Inr u \<Rightarrow>
     (case read_secret f (secrets st) secret_name of
        Inl err \<Rightarrow> Inl err
      | Inr None \<Rightarrow> Inl (RuntimeError (not_found_message secret_name project_id))
      | Inr (Some t) \<Rightarrow>
          if t = Empty_str
          then Inl (RuntimeError (not_found_message secret_name project_id))
          else (case json_loads t of
                  None \<Rightarrow> Inl (RuntimeError (invalid_json_message secret_name))
                | Some v \<Rightarrow> Inr v)))))"

definition get_access_token :: "config \<Rightarrow> faults \<Rightarrow> state \<Rightarrow> error + json" where
  "get_access_token cfg f st =
     (case get_token_payload cfg f st of
        Inl err \<Rightarrow> Inl err
      | Inr data \<Rightarrow>
          (case dict_get data ''access_token'' of
             Inl err \<Rightarrow> Inl err
           | Inr token \<Rightarrow>
               if \<not> truthy token
               then Inl (RuntimeError ''No access_token stored in Secret Manager'')
               else Inr token))"

section \<open>Vocabulary of the statements\<close>

text \<open>\<open>key in d\<close> and \<open>d[key]\<close> in one: the value stored under a key of a dict, if any.\<close>

fun field :: "json \<Rightarrow> string \<Rightarrow> json option" where
  "field (JObj kvs) k = map_of kvs k"
| "field _ k = None"

text \<open>A response body carries an access token when \<open>payload.get("access_token")\<close> is truthy.\<close>

definition has_access_token :: "json \<Rightarrow> bool" where
  "has_access_token pl = (case dict_get pl ''access_token'' of Inl err \<Rightarrow> False | Inr a \<Rightarrow> truthy a)"

text \<open>An \<open>Optional[str]\<close>: \<open>None\<close> or a string.\<close>

fun str_or_none :: "json \<Rightarrow> bool" where
  "str_or_none JNull = True"
| "str_or_none (JStr s) = True"
| "str_or_none _ = False"

fun is_commit :: "event \<Rightarrow> bool" where
  "is_commit (Commit td) = True"
| "is_commit _ = False"

fun is_file_write :: "event \<Rightarrow> bool" where
  "is_file_write (File_write td) = True"
| "is_file_write _ = False"

fun is_secret_write :: "event \<Rightarrow> bool" where
  "is_secret_write (Secret_write n td) = True"
| "is_secret_write _ = False"

definition is_write :: "event \<Rightarrow> bool" where
  "is_write ev = (is_commit ev \<or> is_file_write ev \<or> is_secret_write ev)"

text \<open>The position of the first event of a kind in a trace.\<close>

fun first_index :: "('a \<Rightarrow> bool) \<Rightarrow> 'a list \<Rightarrow> nat option" where
  "first_index P [] = None"
| "first_index P (x # xs) =
     (if P x then Some 0 else (case first_index P xs of None \<Rightarrow> None | Some i \<Rightarrow> Some (Suc i)))"

text \<open>Both kinds of event occur, and the first \<open>P\<close> comes before the first \<open>Q\<close>.\<close>

definition happens_before :: "('a \<Rightarrow> bool) \<Rightarrow> ('a \<Rightarrow> bool) \<Rightarrow> 'a list \<Rightarrow> bool" where
  "happens_before P Q tr =
     (case first_index P tr of
        None \<Rightarrow> False
      | Some i \<Rightarrow> (case first_index Q tr of None \<Rightarrow> False | Some j \<Rightarrow> i < j))"

text \<open>The versions a secret has; none when the secret does not exist.\<close>

definition versions_of :: "secret_manager \<Rightarrow> string \<Rightarrow> secret_version list" where
  "versions_of sm n = (case sm n of None \<Rightarrow> [] | Some vs \<Rightarrow> vs)"

text \<open>Every version stored under a secret is named after that secret.\<close>

definition well_named :: "secret_manager \<Rightarrow> bool" where
  "well_named sm = (\<forall>n vs. sm n = Some vs \<longrightarrow> (\<forall>v \<in> set vs. fst (vname v) = n))"

text \<open>
  What the loop of \<open>_disable_prior_versions\<close> makes of one version: an enabled version
  other than the kept one is disabled, unless its \<open>disable_secret_version\<close> call fails.
\<close>

definition disabled_unless_failing :: "faults \<Rightarrow> version_name \<Rightarrow> secret_version \<Rightarrow> secret_version" where
  "disabled_unless_failing f keep v =
     (if vstate v = ENABLED \<and> vname v \<noteq> keep \<and> disable_fault f (vname v) = None
      then v\<lparr>vstate := DISABLED\<rparr> else v)"

text \<open>The faults the client's \<open>except GoogleAPICallError\<close> clauses are written for.\<close>

definition api_call_faults :: "faults \<Rightarrow> bool" where
  "api_call_faults f =
     ((\<forall>err. list_versions_fault f = Some err \<longrightarrow> is_api_call_error err)
      \<and> (\<forall>vn err. disable_fault f vn = Some err \<longrightarrow> is_api_call_error err))"

text \<open>
  The same, told from the listing \<open>ws\<close> the loop walks through: a stored version is
  disabled when a listed version of its name is enabled, not kept and not failing.
\<close>

definition disabled_by ::
  "faults \<Rightarrow> version_name \<Rightarrow> secret_version list \<Rightarrow> secret_version \<Rightarrow> secret_version" where
  "disabled_by f keep ws u =
     (if vstate u = ENABLED
         \<and> (\<exists>w \<in> set ws. vname w = vname u \<and> vstate w = ENABLED \<and> vname w \<noteq> keep
                \<and> disable_fault f (vname w) = None)
      then u\<lparr>vstate := DISABLED\<rparr> else u)"

text \<open>\<open>time.sleep\<close> accepts the duration \<open>d\<close>, called when the clock of \<open>e\<close> is read.\<close>

definition sleep_fits :: "env \<Rightarrow> int \<Rightarrow> bool" where
  "sleep_fits e d = (int (monotonic_ns e) + d * SEC_TO_NS \<le> INT64_MAX)"

fun is_sleep :: "event \<Rightarrow> bool" where
  "is_sleep (Sleep d) = True"
| "is_sleep _ = False"

text \<open>
  A trace is paced for the interval \<open>iv\<close> when every \<open>Sleep\<close> in it comes right after the
  log line of a failed cycle and lasts \<open>min 600 iv\<close>, or right after the log line of a
  successful cycle and lasts \<open>iv\<close>. \<open>prev\<close> is the event before the trace.
\<close>

fun paced_after :: "int \<Rightarrow> event option \<Rightarrow> event list \<Rightarrow> bool" where
  "paced_after iv prev [] = True"
| "paced_after iv prev (ev # evs) =
     ((case ev of
         Sleep d \<Rightarrow> (prev = Some (Log ERROR loop_failed_message) \<and> d = min 600 iv)
                    \<or> (prev = Some (Log INFO refreshed_message) \<and> d = iv)
       | _ \<Rightarrow> True)
      \<and> paced_after iv (Some ev) evs)"

section \<open>Example inputs\<close>

definition no_faults :: faults where
  "no_faults = \<lparr>get_secret_fault = None, create_secret_fault = None, add_version_fault = None,
     list_versions_fault = None, disable_fault = (\<lambda>v. None), access_fault = None\<rparr>"

definition ex_rotator :: rotator where
  "ex_rotator = \<lparr>rconfig = Map.empty, tokens_secret_name = ''meli-tokens'',
     rotation_interval_seconds = 14400\<rparr>"

text \<open>
  The endpoint answers \<open>{"access_token": "A2", "token_type": "bearer", "expires_in": 21600}\<close>
  at time 1000.
\<close>

definition ex_response :: json where
  "ex_response = JObj [(''access_token'', JStr ''A2''), (''token_type'', JStr ''bearer''),
     (''expires_in'', JInt 21600)]"

definition ex_env :: env where
  "ex_env = \<lparr>post = Response 200 (Some ex_response), clock = 1000, file_write_fails = False,
     gcp_faults = no_faults, stdin_line = None, monotonic_ns = 5000000000\<rparr>"

text \<open>The rotator holds \<open>{"access_token": "A", "refresh_token": "R"}\<close>; nothing is stored yet.\<close>

definition ex_state :: state where
  "ex_state = \<lparr>tokens = JObj [(''access_token'', JStr ''A''), (''refresh_token'', JStr ''R'')],
     token_file = Missing, secrets = Map.empty, trace = []\<rparr>"

definition ex_token_data :: json where
  "ex_token_data = JObj [(''access_token'', JStr ''A2''), (''refresh_token'', JStr ''R''),
     (''token_type'', JStr ''bearer''), (''scope'', JNull), (''expires_in'', JInt 21600),
     (''updated_at'', JInt 1000), (''expires_at'', JInt 22600)]"

definition zero_expiry_response :: json where
  "zero_expiry_response = JObj [(''access_token'', JStr ''A2''), (''expires_in'', JInt 0)]"

definition zero_expiry_env :: env where
  "zero_expiry_env = ex_env\<lparr>post := Response 200 (Some zero_expiry_response)\<rparr>"

definition zero_expiry_token_data :: json where
  "zero_expiry_token_data = JObj [(''access_token'', JStr ''A2''), (''refresh_token'', JStr ''R''),
     (''token_type'', JNull), (''scope'', JNull), (''expires_in'', JInt 0),
     (''updated_at'', JInt 1000)]"

definition no_token_response :: json where
  "no_token_response = JObj [(''token_type'', JStr ''bearer''), (''expires_in'', JInt 21600)]"

definition no_token_env :: env where
  "no_token_env = ex_env\<lparr>post := Response 200 (Some no_token_response)\<rparr>"

definition empty_refresh_state :: state where
  "empty_refresh_state = ex_state\<lparr>tokens := JObj [(''access_token'', JStr ''A''),
     (''refresh_token'', JStr [])]\<rparr>"

definition fallback_rotator :: rotator where
  "fallback_rotator = ex_rotator\<lparr>rconfig := [''MELI_REFRESH_TOKEN'' \<mapsto> ''F'']\<rparr>"

definition empty_refresh_response :: json where
  "empty_refresh_response = JObj [(''access_token'', JStr ''A2''), (''refresh_token'', JStr [])]"

definition empty_refresh_env :: env where
  "empty_refresh_env = ex_env\<lparr>post := Response 200 (Some empty_refresh_response)\<rparr>"

text \<open>
  Two versions are enabled; the service refuses to disable the second one.
\<close>

definition two_versions :: secret_manager where
  "two_versions = [''meli-tokens'' \<mapsto>
     [\<lparr>vname = (''meli-tokens'', 1), vstate = ENABLED, vdata = Encoded Garbled\<rparr>,
      \<lparr>vname = (''meli-tokens'', 2), vstate = ENABLED, vdata = Encoded Garbled\<rparr>]]"

definition second_disable_fails :: faults where
  "second_disable_fails = no_faults\<lparr>disable_fault :=
     (\<lambda>vn. if vn = (''meli-tokens'', 2) then Some APICallError else None)\<rparr>"

definition failing_file_env :: env where
  "failing_file_env = ex_env\<lparr>file_write_fails := True\<rparr>"

text \<open>The token file holds \<open>{"foo": "bar"}\<close>.\<close>

definition foo_tokens :: json where
  "foo_tokens = JObj [(''foo'', JStr ''bar'')]"

definition foo_file_state :: state where
  "foo_file_state = \<lparr>tokens = JNull, token_file = Holds (Dumps foo_tokens),
     secrets = Map.empty, trace = []\<rparr>"

text \<open>
  No token file; the secret's only version holds
  \<open>{"access_token": "A", "refresh_token": "R", "expires_in": 21600}\<close>.
\<close>

definition seed_tokens :: json where
  "seed_tokens = JObj [(''access_token'', JStr ''A''), (''refresh_token'', JStr ''R''),
     (''expires_in'', JInt 21600)]"

definition seeded_secret_state :: state where
  "seeded_secret_state = \<lparr>tokens = JNull, token_file = Missing,
     secrets = [''meli-tokens'' \<mapsto>
       [\<lparr>vname = (''meli-tokens'', 1), vstate = ENABLED, vdata = Encoded (Dumps seed_tokens)\<rparr>]],
     trace = []\<rparr>"

definition ex_config :: config where
  "ex_config = [''MELI_APP_ID'' \<mapsto> ''app'', ''MELI_CLIENT_SECRET'' \<mapsto> ''s3cret'',
     ''MELI_REDIRECT_URI'' \<mapsto> ''https://example.org/cb'',
     ''MELI_TOKENS_SECRET_NAME'' \<mapsto> ''meli-tokens'', ''GCP_PROJECT_ID'' \<mapsto> ''notorios'']"

text \<open>
  The exchange answers 200 with \<open>{"message": "ok"}\<close>: a success status, no
  \<open>access_token\<close>.
\<close>

definition tokenless_body :: json where
  "tokenless_body = JObj [(''message'', JStr ''ok'')]"

definition tokenless_exchange_env :: env where
  "tokenless_exchange_env = ex_env\<lparr>post := Response 200 (Some tokenless_body)\<rparr>"

definition empty_state :: state where
  "empty_state = \<lparr>tokens = JNull, token_file = Missing, secrets = Map.empty, trace = []\<rparr>"

text \<open>The secret's latest version holds \<open>{"message": "ok"}\<close>.\<close>

definition tokenless_secret_state :: state where
  "tokenless_secret_state = \<lparr>tokens = JNull, token_file = Missing,
     secrets = [''meli-tokens'' \<mapsto>
       [\<lparr>vname = (''meli-tokens'', 1), vstate = ENABLED, vdata = Encoded (Dumps tokenless_body)\<rparr>]],
     trace = []\<rparr>"

text \<open>The token endpoint cannot be reached.\<close>

definition unreachable_env :: env where
  "unreachable_env = ex_env\<lparr>post := Post_raises\<rparr>"

section \<open>Facts about the refresh cycle\<close>

lemma map_of_dict_set:
  "map_of (dict_set kvs k v) k' = (if k' = k then Some v else map_of kvs k')"
  by (induction kvs) auto

lemma token_data_literal_InrD:
  assumes "token_data_literal pl rt now = Inr td0"
  obtains a r t s x where
    "dict_get pl ''access_token'' = Inr a"
    "dict_get pl ''refresh_token'' = Inr r"
    "dict_get pl ''token_type'' = Inr t"
    "dict_get pl ''scope'' = Inr s"
    "dict_get pl ''expires_in'' = Inr x"
    "td0 = [(''access_token'', a), (''refresh_token'', if truthy r then r else rt),
            (''token_type'', t), (''scope'', s), (''expires_in'', x), (''updated_at'', JInt now)]"
  using assms unfolding token_data_literal_def
  by (auto split: sum.splits)

lemma request_refresh_InrD:
  assumes "request_refresh e rt st = (Inr pl, st1)"
  obtains status where "post e = Response status (Some pl)" "\<not> raise_for_status status"
    "st1 = emit (Http_post ''refresh_token'' rt) st"
  using assms unfolding request_refresh_def
  by (auto simp: Let_def split: post_result.splits if_splits option.splits)

lemma commit_and_persist_InrD:
  assumes "commit_and_persist self e td st = (Inr r, st')"
  obtains version sm where "r = td" "\<not> file_write_fails e"
    "write_secret (gcp_faults e) (secrets st) (tokens_secret_name self) (Encoded (json_dumps td))
       = (Inr version, sm)"
    "st' = \<lparr>tokens = td, token_file = Holds (json_dumps td), secrets = sm,
            trace = trace st @ [Commit td, File_write td, Secret_write (tokens_secret_name self) td,
              Log INFO refreshed_message]\<rparr>"
  using assms unfolding commit_and_persist_def write_tokens_file_def emit_def
  by (auto simp: Let_def split: if_splits prod.splits sum.splits)

lemma refresh_once_InrD:
  assumes "refresh_once self e st = (Inr td, st')"
  obtains rt status pl td0 kvs a where
    "refresh_token_to_use self st = Inr rt"
    "post e = Response status (Some pl)" "\<not> raise_for_status status"
    "token_data_literal pl rt (clock e) = Inr td0"
    "add_expires_at pl (clock e) td0 = Inr kvs"
    "td = JObj kvs"
    "map_of kvs ''access_token'' = Some a" "truthy a"
    "commit_and_persist self e (JObj kvs) (emit (Http_post ''refresh_token'' rt) st) = (Inr td, st')"
proof -
  from assms obtain rt where rt: "refresh_token_to_use self st = Inr rt"
    unfolding refresh_once_def by (auto split: sum.splits)
  from assms rt obtain pl st1 where rq: "request_refresh e rt st = (Inr pl, st1)"
    unfolding refresh_once_def by (auto split: sum.splits prod.splits)
  from rq obtain status where st: "post e = Response status (Some pl)" "\<not> raise_for_status status"
    "st1 = emit (Http_post ''refresh_token'' rt) st"
    by (rule request_refresh_InrD)
  from assms rt rq obtain td0 where td0: "token_data_literal pl rt (clock e) = Inr td0"
    unfolding refresh_once_def by (auto simp: Let_def split: sum.splits)
  from assms rt rq td0 obtain kvs where kvs: "add_expires_at pl (clock e) td0 = Inr kvs"
    unfolding refresh_once_def by (auto simp: Let_def split: sum.splits)
  from assms rt rq td0 kvs obtain a where a: "dict_get (JObj kvs) ''access_token'' = Inr a" "truthy a"
    and cp: "commit_and_persist self e (JObj kvs) st1 = (Inr td, st')"
    unfolding refresh_once_def by (auto simp: Let_def split: sum.splits if_splits)
  from cp have td: "td = JObj kvs" by (rule commit_and_persist_InrD)
  from a have "map_of kvs ''access_token'' = Some a"
    by (cases "map_of kvs ''access_token''") auto
  with rt st td0 kvs td a cp show thesis
    by (intro that) auto
qed

lemmas example_defs = ex_rotator_def ex_env_def ex_state_def ex_response_def ex_token_data_def
  no_faults_def

lemmas refresh_defs = refresh_once_def refresh_token_to_use_def request_refresh_def
  token_data_literal_def add_expires_at_def commit_and_persist_def write_tokens_file_def
  emit_def raise_for_status_def py_or_def require_def json_dumps_def

lemmas storage_defs = write_secret_def ensure_secret_def get_secret_def create_secret_def
  add_secret_version_def disable_prior_versions_def list_secret_versions_def
  disable_secret_version_def set_disabled_def

lemma ex_refresh_once_fst:
  "fst (refresh_once ex_rotator ex_env ex_state) = Inr ex_token_data"
  by (simp add: example_defs refresh_defs storage_defs refreshed_message_def)

lemma ex_refresh_once:
  "refresh_once ex_rotator ex_env ex_state =
     (Inr ex_token_data, snd (refresh_once ex_rotator ex_env ex_state))"
  using ex_refresh_once_fst by (simp add: prod_eq_iff)

lemma add_expires_at_shape:
  assumes "add_expires_at pl now td0 = Inr kvs"
  shows "kvs = td0 \<or> (\<exists>n. kvs = dict_set td0 ''expires_at'' (JInt (now + n)))"
  using assms unfolding add_expires_at_def
  by (auto split: sum.splits if_splits)

lemma expires_at_other_key:
  assumes "add_expires_at pl now td0 = Inr kvs" "k \<noteq> ''expires_at''"
  shows "map_of kvs k = map_of td0 k"
  using add_expires_at_shape[OF assms(1)] assms(2) by (auto simp: map_of_dict_set)

lemma td0_get:
  assumes "token_data_literal pl rt now = Inr td0" "add_expires_at pl now td0 = Inr kvs"
    "k \<in> {''access_token'', ''token_type'', ''scope'', ''expires_in''}"
  shows "dict_get (JObj kvs) k = dict_get pl k"
proof -
  from assms(1) obtain a r t s x where g:
    "dict_get pl ''access_token'' = Inr a"
    "dict_get pl ''refresh_token'' = Inr r"
    "dict_get pl ''token_type'' = Inr t"
    "dict_get pl ''scope'' = Inr s"
    "dict_get pl ''expires_in'' = Inr x"
    and td0: "td0 = [(''access_token'', a), (''refresh_token'', if truthy r then r else rt),
            (''token_type'', t), (''scope'', s), (''expires_in'', x), (''updated_at'', JInt now)]"
    by (rule token_data_literal_InrD)
  from assms(3) have ne: "k \<noteq> ''expires_at''" by auto
  have "map_of kvs k = map_of td0 k" by (rule expires_at_other_key[OF assms(2) ne])
  moreover have "map_of td0 k = Some (projr (dict_get pl k))"
    using assms(3) g td0 by auto
  ultimately show ?thesis using assms(3) g by auto
qed

lemma commit_and_persist_trace:
  assumes "commit_and_persist self e td st = (Inr r, st')"
  shows "trace st' = trace st @ [Commit td, File_write td,
           Secret_write (tokens_secret_name self) td, Log INFO refreshed_message]"
    and "tokens st' = td" and "token_file st' = Holds (json_dumps td)" and "r = td"
  using assms by (rule commit_and_persist_InrD; simp)+

text \<open>
  Claim C6. When the response of the token endpoint has no \<open>refresh_token\<close> key, the token
  set that a successful \<open>refresh_once\<close> returns and keeps in memory has as its
  \<open>refresh_token\<close> the token that was sent in the request, and its \<open>access_token\<close>,
  \<open>token_type\<close>, \<open>scope\<close> and \<open>expires_in\<close> are those of the response
  (\<open>None\<close> where the response has none).
\<close>

theorem refresh_token_carry_forward:
  assumes "refresh_once self e st = (Inr td, st')"
    and "post e = Response status (Some (JObj pkvs))"
    and "map_of pkvs ''refresh_token'' = None"
  shows "\<exists>rt rest. refresh_token_to_use self st = Inr rt
           \<and> trace st' = trace st @ Http_post ''refresh_token'' rt # rest
           \<and> dict_get td ''refresh_token'' = Inr rt
           \<and> dict_get td ''access_token'' = dict_get (JObj pkvs) ''access_token''
           \<and> dict_get td ''token_type'' = dict_get (JObj pkvs) ''token_type''
           \<and> dict_get td ''scope'' = dict_get (JObj pkvs) ''scope''
           \<and> dict_get td ''expires_in'' = dict_get (JObj pkvs) ''expires_in''
           \<and> tokens st' = td"
proof -
  from assms(1) obtain rt status' pl td0 kvs where h:
    "refresh_token_to_use self st = Inr rt"
    "post e = Response status' (Some pl)"
    "token_data_literal pl rt (clock e) = Inr td0"
    "add_expires_at pl (clock e) td0 = Inr kvs"
    "td = JObj kvs"
    "commit_and_persist self e (JObj kvs) (emit (Http_post ''refresh_token'' rt) st) = (Inr td, st')"
    by (rule refresh_once_InrD)
  from h(2) assms(2) have pl: "pl = JObj pkvs" by simp
  have tr: "trace st' = trace st @ Http_post ''refresh_token'' rt #
      [Commit td, File_write td, Secret_write (tokens_secret_name self) td, Log INFO refreshed_message]"
    using commit_and_persist_trace(1)[OF h(6)] h(5) by (simp add: emit_def)
  have tk: "tokens st' = td"
    using commit_and_persist_trace(2)[OF h(6)] h(5) by simp
  have copied: "dict_get td k = dict_get (JObj pkvs) k"
    if "k \<in> {''access_token'', ''token_type'', ''scope'', ''expires_in''}" for k
    using td0_get[OF h(3) h(4) that] h(5) pl by simp
  from h(3) obtain r where r: "dict_get pl ''refresh_token'' = Inr r"
    and td0: "map_of td0 ''refresh_token'' = Some (if truthy r then r else rt)"
    by (rule token_data_literal_InrD) simp
  from r pl assms(3) have "r = JNull" by simp
  with td0 have "map_of td0 ''refresh_token'' = Some rt" by simp
  then have "map_of kvs ''refresh_token'' = Some rt"
    using expires_at_other_key[OF h(4), of "''refresh_token''"] by simp
  then have "dict_get td ''refresh_token'' = Inr rt"
    using h(5) by simp
  with h(1) tr tk copied show ?thesis by simp
qed

theorem refresh_token_carry_forward_witness:
  "fst (refresh_once ex_rotator ex_env ex_state) = Inr ex_token_data
   \<and> field ex_response ''refresh_token'' = None
   \<and> refresh_token_to_use ex_rotator ex_state = Inr (JStr ''R'')
   \<and> dict_get ex_token_data ''refresh_token'' = Inr (JStr ''R'')
   \<and> dict_get ex_token_data ''access_token'' = Inr (JStr ''A2'')"
proof -
  have p: "post ex_env = Response 200 (Some (JObj [(''access_token'', JStr ''A2''),
      (''token_type'', JStr ''bearer''), (''expires_in'', JInt 21600)]))"
    by (simp add: example_defs)
  have m: "map_of [(''access_token'', JStr ''A2''), (''token_type'', JStr ''bearer''),
      (''expires_in'', JInt 21600)] ''refresh_token'' = None"
    by simp
  from refresh_token_carry_forward[OF ex_refresh_once p m] show ?thesis
    by (simp add: ex_refresh_once_fst) (simp add: example_defs)
qed

lemma token_data_literal_no_expires_at:
  assumes "token_data_literal pl rt now = Inr td0"
  shows "map_of td0 ''expires_at'' = None" and "map_of td0 ''updated_at'' = Some (JInt now)"
  using assms by (rule token_data_literal_InrD; simp)+

lemma add_expires_at_field:
  assumes "add_expires_at pl now td0 = Inr kvs" and "map_of td0 ''expires_at'' = None"
  shows "\<exists>x. dict_get pl ''expires_in'' = Inr x
           \<and> (truthy x \<longrightarrow> (\<exists>n. py_int x = Inr n \<and> map_of kvs ''expires_at'' = Some (JInt (now + n))))
           \<and> (\<not> truthy x \<longrightarrow> map_of kvs ''expires_at'' = None)"
  using assms unfolding add_expires_at_def
  by (auto simp: map_of_dict_set split: sum.splits if_splits)

lemma field_dict_get:
  "field pl k = Some v \<Longrightarrow> dict_get pl k = Inr v"
  by (cases pl) auto

lemma field_None_dict_get:
  "dict_get pl k = Inr x \<Longrightarrow> field pl k = None \<Longrightarrow> x = JNull"
  by (cases pl) auto

text \<open>
  Claim C4, as the code has it. The token set of a successful \<open>refresh_once\<close> has
  \<open>updated_at\<close> equal to the time of the call. It has \<open>expires_at = updated_at + int(expires_in)\<close>
  when the response's \<open>expires_in\<close> is truthy (for an integer: not zero), and no
  \<open>expires_at\<close> key when \<open>expires_in\<close> is missing, \<open>None\<close> or zero.
\<close>

theorem expires_at_when_expires_in_truthy:
  assumes "refresh_once self e st = (Inr td, st')"
    and "post e = Response status (Some pl)"
  shows "field td ''updated_at'' = Some (JInt (clock e))
       \<and> (\<exists>x. dict_get pl ''expires_in'' = Inr x
            \<and> (truthy x \<longrightarrow>
                 (\<exists>n. py_int x = Inr n \<and> field td ''expires_at'' = Some (JInt (clock e + n))))
            \<and> (\<not> truthy x \<longrightarrow> field td ''expires_at'' = None))
       \<and> (\<forall>n. field pl ''expires_in'' = Some (JInt n) \<and> n \<noteq> 0
              \<longrightarrow> field td ''expires_at'' = Some (JInt (clock e + n)))
       \<and> (field pl ''expires_in'' \<in> {None, Some JNull, Some (JInt 0)}
              \<longrightarrow> field td ''expires_at'' = None)"
proof -
  from assms(1) obtain rt status' pl' td0 kvs where h:
    "post e = Response status' (Some pl')"
    "token_data_literal pl' rt (clock e) = Inr td0"
    "add_expires_at pl' (clock e) td0 = Inr kvs"
    "td = JObj kvs"
    by (rule refresh_once_InrD)
  from h(1) assms(2) have pl: "pl' = pl" by simp
  note lit = token_data_literal_no_expires_at[OF h(2)]
  have upd: "field td ''updated_at'' = Some (JInt (clock e))"
    using expires_at_other_key[OF h(3), of "''updated_at''"] lit(2) h(4) by simp
  from add_expires_at_field[OF h(3) lit(1)] obtain x where x:
    "dict_get pl ''expires_in'' = Inr x"
    "truthy x \<longrightarrow> (\<exists>n. py_int x = Inr n \<and> field td ''expires_at'' = Some (JInt (clock e + n)))"
    "\<not> truthy x \<longrightarrow> field td ''expires_at'' = None"
    unfolding pl h(4) by auto
  have int_case: "field td ''expires_at'' = Some (JInt (clock e + n))"
    if "field pl ''expires_in'' = Some (JInt n) \<and> n \<noteq> 0" for n
  proof -
    from that x(1) have "x = JInt n" by (auto dest: field_dict_get)
    with that x(2) show ?thesis by simp
  qed
  have absent_case: "field td ''expires_at'' = None"
    if "field pl ''expires_in'' \<in> {None, Some JNull, Some (JInt 0)}"
  proof -
    from that x(1) have "x = JNull \<or> x = JInt 0"
      by (auto dest: field_dict_get field_None_dict_get)
    with x(3) show ?thesis by auto
  qed
  from upd x int_case absent_case show ?thesis by blast
qed

theorem expires_at_when_expires_in_truthy_witness:
  "fst (refresh_once ex_rotator ex_env ex_state) = Inr ex_token_data
   \<and> post ex_env = Response 200 (Some ex_response)
   \<and> field ex_response ''expires_in'' = Some (JInt 21600)
   \<and> field ex_token_data ''updated_at'' = Some (JInt (clock ex_env))
   \<and> field ex_token_data ''expires_at'' = Some (JInt (clock ex_env + 21600))"
proof -
  have p: "post ex_env = Response 200 (Some ex_response)"
    by (simp add: example_defs)
  have f: "field ex_response ''expires_in'' = Some (JInt 21600)"
    by (simp add: example_defs)
  from expires_at_when_expires_in_truthy[OF ex_refresh_once p] f p show ?thesis
    by (simp add: ex_refresh_once_fst)
qed

theorem expires_in_zero_gives_no_expires_at:
  "post zero_expiry_env = Response 200 (Some zero_expiry_response)
   \<and> field zero_expiry_response ''access_token'' = Some (JStr ''A2'')
   \<and> field zero_expiry_response ''expires_in'' = Some (JInt 0)
   \<and> fst (refresh_once ex_rotator zero_expiry_env ex_state) = Inr zero_expiry_token_data
   \<and> field zero_expiry_token_data ''updated_at'' = Some (JInt 1000)
   \<and> field zero_expiry_token_data ''expires_in'' = Some (JInt 0)
   \<and> field zero_expiry_token_data ''expires_at'' = None"
  by (simp add: zero_expiry_env_def zero_expiry_response_def zero_expiry_token_data_def
      example_defs refresh_defs storage_defs)

lemma request_refresh_response:
  assumes "post e = Response status (Some pl)"
  shows "request_refresh e rt st =
     (if raise_for_status status
      then (Inl (RuntimeError ''Token refresh failed''),
            emit (Log ERROR ''Refresh request failed: %s'') (emit (Http_post ''refresh_token'' rt) st))
      else (Inr pl, emit (Http_post ''refresh_token'' rt) st))"
  using assms by (simp add: request_refresh_def Let_def)

lemma emit_fields:
  "tokens (emit ev st) = tokens st" "token_file (emit ev st) = token_file st"
  "secrets (emit ev st) = secrets st" "trace (emit ev st) = trace st @ [ev]"
  by (simp_all add: emit_def)

lemma has_access_token_falsy:
  assumes "\<not> has_access_token pl" and "dict_get pl ''access_token'' = Inr a"
  shows "\<not> truthy a"
  using assms by (simp add: has_access_token_def)

text \<open>Without an access token in the response, \<open>refresh_once\<close> stops before line 134.\<close>

lemma refresh_once_without_access_token:
  assumes "post e = Response status (Some pl)" and "\<not> has_access_token pl"
    and "refresh_token_to_use self st = Inr rt" and "\<not> raise_for_status status"
  shows "\<exists>err. refresh_once self e st = (Inl err, emit (Http_post ''refresh_token'' rt) st)
           \<and> (err = RuntimeError no_access_token_message
                \<or> token_data_literal pl rt (clock e) = Inl err
                \<or> (\<exists>td0. add_expires_at pl (clock e) td0 = Inl err))"
proof (cases "token_data_literal pl rt (clock e)")
  case (Inl err)
  then show ?thesis
    using assms by (simp add: refresh_once_def request_refresh_response)
next
  case lit: (Inr td0)
  show ?thesis
  proof (cases "add_expires_at pl (clock e) td0")
    case (Inl err)
    then show ?thesis
      using assms lit by (auto simp add: refresh_once_def request_refresh_response)
  next
    case (Inr kvs)
    from lit obtain a where a: "dict_get pl ''access_token'' = Inr a"
      by (rule token_data_literal_InrD)
    have "dict_get (JObj kvs) ''access_token'' = dict_get pl ''access_token''"
      by (rule td0_get[OF lit Inr]) simp
    with a have "dict_get (JObj kvs) ''access_token'' = Inr a" by simp
    moreover have "\<not> truthy a" by (rule has_access_token_falsy[OF assms(2) a])
    ultimately show ?thesis
      using assms lit Inr by (simp add: refresh_once_def request_refresh_response)
  qed
qed

lemma token_data_literal_dict:
  "token_data_literal (JObj kvs) rt now \<noteq> Inl err"
  by (simp add: token_data_literal_def split: option.splits)

lemma add_expires_at_ok:
  assumes "\<forall>x. map_of kvs ''expires_in'' = Some x \<longrightarrow> \<not> truthy x \<or> (\<exists>n. py_int x = Inr n)"
  shows "add_expires_at (JObj kvs) now td0 \<noteq> Inl err"
  using assms by (auto simp add: add_expires_at_def split: option.splits)

text \<open>
  Claim C5. When the response of the token endpoint has no access token (the key is
  missing, or its value is empty), \<open>refresh_once\<close> raises; the token file, the secret store
  and \<open>self._tokens\<close> are as before, and no write was attempted. When the request was
  sent and \<open>expires_in\<close> is missing or an integer, the exception is the
  \<open>RuntimeError\<close> of line 132.
\<close>

theorem no_access_token_no_write:
  assumes "post e = Response status (Some pl)" and "\<not> has_access_token pl"
  shows "\<exists>err st'. refresh_once self e st = (Inl err, st')
           \<and> tokens st' = tokens st
           \<and> token_file st' = token_file st
           \<and> secrets st' = secrets st
           \<and> filter is_write (trace st') = filter is_write (trace st)
           \<and> ((\<exists>rt. refresh_token_to_use self st = Inr rt) \<and> \<not> raise_for_status status
                \<and> (\<exists>kvs. pl = JObj kvs
                      \<and> (\<forall>x. map_of kvs ''expires_in'' = Some x
                             \<longrightarrow> \<not> truthy x \<or> (\<exists>n. py_int x = Inr n)))
               \<longrightarrow> err = RuntimeError no_access_token_message)"
proof (cases "refresh_token_to_use self st")
  case (Inl err)
  then show ?thesis by (simp add: refresh_once_def)
next
  case rt: (Inr rt)
  show ?thesis
  proof (cases "raise_for_status status")
    case True
    then show ?thesis
      using assms(1) rt
      by (simp add: refresh_once_def request_refresh_response emit_fields is_write_def)
  next
    case False
    from refresh_once_without_access_token[OF assms rt False] obtain err where err:
      "refresh_once self e st = (Inl err, emit (Http_post ''refresh_token'' rt) st)"
      "err = RuntimeError no_access_token_message
         \<or> token_data_literal pl rt (clock e) = Inl err
         \<or> (\<exists>td0. add_expires_at pl (clock e) td0 = Inl err)"
      by blast
    have "err = RuntimeError no_access_token_message"
      if "pl = JObj kvs"
        and "\<forall>x. map_of kvs ''expires_in'' = Some x \<longrightarrow> \<not> truthy x \<or> (\<exists>n. py_int x = Inr n)"
      for kvs
      using err(2) that token_data_literal_dict add_expires_at_ok[OF that(2)] by blast
    with err(1) show ?thesis
      by (auto simp add: emit_fields is_write_def)
  qed
qed

theorem no_access_token_no_write_witness:
  "post no_token_env = Response 200 (Some no_token_response)
   \<and> \<not> has_access_token no_token_response
   \<and> fst (refresh_once ex_rotator no_token_env ex_state) = Inl (RuntimeError no_access_token_message)
   \<and> tokens (snd (refresh_once ex_rotator no_token_env ex_state)) = tokens ex_state
   \<and> token_file (snd (refresh_once ex_rotator no_token_env ex_state)) = token_file ex_state
   \<and> secrets (snd (refresh_once ex_rotator no_token_env ex_state)) = secrets ex_state"
proof -
  have p: "post no_token_env = Response 200 (Some no_token_response)"
    by (simp add: no_token_env_def example_defs)
  have n: "\<not> has_access_token no_token_response"
    by (simp add: no_token_response_def has_access_token_def)
  have r: "\<exists>rt. refresh_token_to_use ex_rotator ex_state = Inr rt"
    by (simp add: refresh_token_to_use_def py_or_def example_defs)
  have s: "\<not> raise_for_status 200"
    by (simp add: raise_for_status_def)
  have k: "\<exists>kvs. no_token_response = JObj kvs
             \<and> (\<forall>x. map_of kvs ''expires_in'' = Some x \<longrightarrow> \<not> truthy x \<or> (\<exists>n. py_int x = Inr n))"
    by (simp add: no_token_response_def)
  from no_access_token_no_write[OF p n, of ex_rotator ex_state] obtain err st' where
    "refresh_once ex_rotator no_token_env ex_state = (Inl err, st')"
    "tokens st' = tokens ex_state" "token_file st' = token_file ex_state"
    "secrets st' = secrets ex_state"
    "(\<exists>rt. refresh_token_to_use ex_rotator ex_state = Inr rt) \<and> \<not> raise_for_status 200
       \<and> (\<exists>kvs. no_token_response = JObj kvs
             \<and> (\<forall>x. map_of kvs ''expires_in'' = Some x \<longrightarrow> \<not> truthy x \<or> (\<exists>n. py_int x = Inr n)))
     \<longrightarrow> err = RuntimeError no_access_token_message"
    by blast
  with p n r s k show ?thesis by simp
qed

lemma request_refresh_trace:
  "\<exists>new. trace (snd (request_refresh e rt st)) = trace st @ Http_post ''refresh_token'' rt # new"
  by (simp add: request_refresh_def Let_def emit_def split: post_result.splits option.splits)

lemma commit_and_persist_appends:
  "\<exists>new. trace (snd (commit_and_persist self e td st)) = trace st @ new"
  by (simp add: commit_and_persist_def write_tokens_file_def Let_def emit_def
      split: prod.splits sum.splits)

lemma refresh_once_sends:
  assumes "refresh_token_to_use self st = Inr rt"
  shows "\<exists>rest. trace (snd (refresh_once self e st)) = trace st @ Http_post ''refresh_token'' rt # rest"
proof -
  obtain r st1 where rq: "request_refresh e rt st = (r, st1)"
    by (cases "request_refresh e rt st")
  from request_refresh_trace[of e rt st] rq obtain new where
    st1: "trace st1 = trace st @ Http_post ''refresh_token'' rt # new"
    by auto
  show ?thesis
  proof (cases "snd (refresh_once self e st) = st1")
    case True
    with st1 show ?thesis by simp
  next
    case False
    then obtain td where "snd (refresh_once self e st) = snd (commit_and_persist self e td st1)"
      using assms rq
      by (auto simp add: refresh_once_def Let_def split: sum.splits if_splits)
    with commit_and_persist_appends[of self e td st1] st1 show ?thesis
      by auto
  qed
qed

lemma refresh_token_to_use_dict:
  assumes "tokens st = JObj kvs"
  shows "refresh_token_to_use self st =
     (case map_of kvs ''refresh_token'' of
        None \<Rightarrow> (case rconfig self ''MELI_REFRESH_TOKEN'' of
                   None \<Rightarrow> Inl (ConfigError ''MELI_REFRESH_TOKEN'') | Some s \<Rightarrow> Inr (JStr s))
      | Some v \<Rightarrow> if truthy v then Inr v
                  else (case rconfig self ''MELI_REFRESH_TOKEN'' of
                          None \<Rightarrow> Inl (ConfigError ''MELI_REFRESH_TOKEN'') | Some s \<Rightarrow> Inr (JStr s)))"
  using assms
  by (simp add: refresh_token_to_use_def py_or_def require_def split: option.splits)

lemma response_refresh_token:
  assumes "refresh_once self e st = (Inr td, st')"
    and "post e = Response status (Some pl)"
    and "dict_get pl ''refresh_token'' = Inr r"
    and "refresh_token_to_use self st = Inr rt"
  shows "dict_get td ''refresh_token'' = Inr (if truthy r then r else rt)"
proof -
  from assms(1) obtain rt' status' pl' td0 kvs where h:
    "refresh_token_to_use self st = Inr rt'"
    "post e = Response status' (Some pl')"
    "token_data_literal pl' rt' (clock e) = Inr td0"
    "add_expires_at pl' (clock e) td0 = Inr kvs"
    "td = JObj kvs"
    by (rule refresh_once_InrD)
  from h(1,2) assms(2,4) have eq: "pl' = pl" "rt' = rt" by simp_all
  from h(3) obtain r' where "dict_get pl' ''refresh_token'' = Inr r'"
    and "map_of td0 ''refresh_token'' = Some (if truthy r' then r' else rt')"
    by (rule token_data_literal_InrD) simp
  with assms(3) eq have "map_of td0 ''refresh_token'' = Some (if truthy r then r else rt)"
    by simp
  then have "map_of kvs ''refresh_token'' = Some (if truthy r then r else rt)"
    using expires_at_other_key[OF h(4), of "''refresh_token''"] by simp
  with h(5) show ?thesis by simp
qed

text \<open>
  Claim C10. In \<open>refresh_once\<close> the configured \<open>MELI_REFRESH_TOKEN\<close> is used exactly when
  the \<open>refresh_token\<close> of the token set in memory is falsy; a truthy one is sent as it is
  and the configuration is not asked. For a field that holds a string or \<open>None\<close> the
  falsy values are the missing key, \<open>None\<close> and the empty string. An empty string as the
  response's \<open>refresh_token\<close> is treated like a missing one: the token that was sent is
  kept.
\<close>

theorem fallback_refresh_token_exactly_when_falsy:
  assumes "tokens st = JObj kvs"
    and "\<forall>v. map_of kvs ''refresh_token'' = Some v \<longrightarrow> str_or_none v"
  shows "(map_of kvs ''refresh_token'' \<in> {None, Some JNull, Some (JStr [])}
            \<longrightarrow> refresh_token_to_use self st =
                 (case rconfig self ''MELI_REFRESH_TOKEN'' of
                    None \<Rightarrow> Inl (ConfigError ''MELI_REFRESH_TOKEN'')
                  | Some s \<Rightarrow> Inr (JStr s)))
       \<and> (map_of kvs ''refresh_token'' \<notin> {None, Some JNull, Some (JStr [])}
            \<longrightarrow> (\<exists>s. s \<noteq> [] \<and> map_of kvs ''refresh_token'' = Some (JStr s)
                     \<and> refresh_token_to_use self st = Inr (JStr s)))
       \<and> (\<forall>err. refresh_token_to_use self st = Inl err \<longrightarrow> refresh_once self e st = (Inl err, st))
       \<and> (\<forall>rt. refresh_token_to_use self st = Inr rt
            \<longrightarrow> (\<exists>rest. trace (snd (refresh_once self e st))
                          = trace st @ Http_post ''refresh_token'' rt # rest))
       \<and> (\<forall>rt td st' status pl.
             refresh_token_to_use self st = Inr rt
             \<and> refresh_once self e st = (Inr td, st')
             \<and> post e = Response status (Some pl)
             \<and> field pl ''refresh_token'' = Some (JStr [])
            \<longrightarrow> dict_get td ''refresh_token'' = Inr rt)"
proof -
  note use = refresh_token_to_use_dict[OF assms(1), of self]
  have falsy: "refresh_token_to_use self st =
                 (case rconfig self ''MELI_REFRESH_TOKEN'' of
                    None \<Rightarrow> Inl (ConfigError ''MELI_REFRESH_TOKEN'')
                  | Some s \<Rightarrow> Inr (JStr s))"
    if "map_of kvs ''refresh_token'' \<in> {None, Some JNull, Some (JStr [])}"
    using that use by auto
  have truthy: "\<exists>s. s \<noteq> [] \<and> map_of kvs ''refresh_token'' = Some (JStr s)
                     \<and> refresh_token_to_use self st = Inr (JStr s)"
    if "map_of kvs ''refresh_token'' \<notin> {None, Some JNull, Some (JStr [])}"
  proof -
    from that obtain v where v: "map_of kvs ''refresh_token'' = Some v" "v \<noteq> JNull" "v \<noteq> JStr []"
      by (cases "map_of kvs ''refresh_token''") auto
    with assms(2) have "str_or_none v" by simp
    with v obtain s where "v = JStr s" "s \<noteq> []" by (cases v) auto
    with v use show ?thesis by simp
  qed
  have stop: "refresh_once self e st = (Inl err, st)" if "refresh_token_to_use self st = Inl err" for err
    using that by (simp add: refresh_once_def)
  have sent: "\<exists>rest. trace (snd (refresh_once self e st)) = trace st @ Http_post ''refresh_token'' rt # rest"
    if "refresh_token_to_use self st = Inr rt" for rt
    using that by (rule refresh_once_sends)
  have kept: "dict_get td ''refresh_token'' = Inr rt"
    if "refresh_token_to_use self st = Inr rt \<and> refresh_once self e st = (Inr td, st')
        \<and> post e = Response status (Some pl) \<and> field pl ''refresh_token'' = Some (JStr [])"
    for rt td st' status pl
  proof -
    from that have "dict_get pl ''refresh_token'' = Inr (JStr [])"
      by (auto dest: field_dict_get)
    with that response_refresh_token[of self e st td st' status pl "JStr []" rt]
    show ?thesis by simp
  qed
  from falsy truthy stop sent kept show ?thesis by blast
qed

theorem fallback_refresh_token_exactly_when_falsy_witness:
  "tokens empty_refresh_state = JObj [(''access_token'', JStr ''A''), (''refresh_token'', JStr [])]
   \<and> refresh_token_to_use fallback_rotator empty_refresh_state = Inr (JStr ''F'')
   \<and> refresh_token_to_use ex_rotator empty_refresh_state = Inl (ConfigError ''MELI_REFRESH_TOKEN'')
   \<and> refresh_once ex_rotator ex_env empty_refresh_state
       = (Inl (ConfigError ''MELI_REFRESH_TOKEN''), empty_refresh_state)
   \<and> field empty_refresh_response ''refresh_token'' = Some (JStr [])
   \<and> fst (refresh_once fallback_rotator empty_refresh_env empty_refresh_state)
       = Inr (JObj [(''access_token'', JStr ''A2''), (''refresh_token'', JStr ''F''),
                    (''token_type'', JNull), (''scope'', JNull), (''expires_in'', JNull),
                    (''updated_at'', JInt 1000)])"
proof -
  have r: "field empty_refresh_response ''refresh_token'' = Some (JStr [])
     \<and> fst (refresh_once fallback_rotator empty_refresh_env empty_refresh_state)
       = Inr (JObj [(''access_token'', JStr ''A2''), (''refresh_token'', JStr ''F''),
                    (''token_type'', JNull), (''scope'', JNull), (''expires_in'', JNull),
                    (''updated_at'', JInt 1000)])"
    by (simp add: empty_refresh_response_def empty_refresh_env_def empty_refresh_state_def
        fallback_rotator_def example_defs refresh_defs storage_defs)
  have t: "tokens empty_refresh_state
             = JObj [(''access_token'', JStr ''A''), (''refresh_token'', JStr [])]"
    by (simp add: empty_refresh_state_def example_defs)
  have s: "\<forall>v. map_of [(''access_token'', JStr ''A''), (''refresh_token'', JStr [])] ''refresh_token''
             = Some v \<longrightarrow> str_or_none v"
    by simp
  have c: "rconfig fallback_rotator ''MELI_REFRESH_TOKEN'' = Some ''F''"
    "rconfig ex_rotator ''MELI_REFRESH_TOKEN'' = None"
    by (simp_all add: fallback_rotator_def example_defs)
  from fallback_refresh_token_exactly_when_falsy[OF t s, of fallback_rotator ex_env]
    fallback_refresh_token_exactly_when_falsy[OF t s, of ex_rotator ex_env] t c r
  show ?thesis by simp
qed

section \<open>Facts about \<open>write_secret\<close>\<close>

lemma disable_each_returns:
  assumes "\<And>vn err. disable_fault f vn = Some err \<Longrightarrow> is_api_call_error err"
  shows "fst (disable_each f keep ws sm) = Inr ()"
proof (induction ws arbitrary: sm)
  case Nil
  show ?case by simp
next
  case (Cons w ws)
  have "is_api_call_error err" if "disable_secret_version f sm (vname w) = (Inl err, sm')" for err sm'
  proof -
    from that have "disable_fault f (vname w) = Some err \<or> err = NotFound"
      by (auto simp add: disable_secret_version_def split: option.splits if_splits)
    then show ?thesis using assms[of "vname w" err] by auto
  qed
  with Cons show ?case
    by (auto split: prod.splits sum.splits)
qed

lemma disabled_by_Nil: "map (disabled_by f keep []) cur = cur"
  by (simp add: disabled_by_def map_idI)

lemma disabled_by_skip:
  assumes "\<not> (vname w \<noteq> keep \<and> vstate w = ENABLED \<and> disable_fault f (vname w) = None)"
  shows "disabled_by f keep (w # ws) u = disabled_by f keep ws u"
  using assms by (auto simp add: disabled_by_def)

lemma disabled_by_hit:
  assumes "vname w \<noteq> keep" "vstate w = ENABLED" "disable_fault f (vname w) = None"
  shows "disabled_by f keep ws (set_disabled (vname w) u) = disabled_by f keep (w # ws) u"
  using assms by (auto simp add: disabled_by_def set_disabled_def)

lemma vname_set_disabled: "vname (set_disabled vn u) = vname u"
  by (simp add: set_disabled_def)

text \<open>The versions that the loop disables: listed as enabled, not kept, not failing.\<close>

lemma disable_each_effect:
  assumes "\<And>vn err. disable_fault f vn = Some err \<Longrightarrow> is_api_call_error err"
    and "sm n = Some cur"
    and "\<forall>w \<in> set ws. fst (vname w) = n \<and> vname w \<in> vname ` set cur"
  shows "snd (disable_each f keep ws sm) = sm(n \<mapsto> map (disabled_by f keep ws) cur)"
  using assms(2,3)
proof (induction ws arbitrary: sm cur)
  case Nil
  then show ?case by (simp add: disabled_by_Nil fun_upd_idem)
next
  case (Cons w ws)
  from Cons.prems have w: "fst (vname w) = n" "vname w \<in> vname ` set cur"
    and ws: "\<forall>w \<in> set ws. fst (vname w) = n \<and> vname w \<in> vname ` set cur"
    by auto
  show ?case
  proof (cases "vname w \<noteq> keep \<and> vstate w = ENABLED \<and> disable_fault f (vname w) = None")
    case False
    have same: "disable_each f keep (w # ws) sm = disable_each f keep ws sm"
    proof (cases "disable_fault f (vname w)")
      case None
      with False show ?thesis by auto
    next
      case (Some err)
      with assms(1) have "is_api_call_error err" by blast
      with Some show ?thesis by (simp add: disable_secret_version_def)
    qed
    have maps: "map (disabled_by f keep ws) cur = map (disabled_by f keep (w # ws)) cur"
      using disabled_by_skip[OF False] by simp
    have "snd (disable_each f keep (w # ws) sm) = snd (disable_each f keep ws sm)"
      by (simp only: same)
    also have "\<dots> = sm(n \<mapsto> map (disabled_by f keep ws) cur)"
      by (rule Cons.IH[of sm cur, OF Cons.prems(1) ws])
    also have "\<dots> = sm(n \<mapsto> map (disabled_by f keep (w # ws)) cur)"
      by (simp only: maps)
    finally show ?thesis .
  next
    case True
    let ?cur' = "map (set_disabled (vname w)) cur"
    let ?sm' = "sm(n \<mapsto> ?cur')"
    from True w Cons.prems(1)
    have step: "disable_each f keep (w # ws) sm = disable_each f keep ws ?sm'"
      by (auto simp add: disable_secret_version_def)
    have names: "vname ` set ?cur' = vname ` set cur"
      by (simp add: image_image vname_set_disabled)
    have maps: "map (disabled_by f keep ws) ?cur' = map (disabled_by f keep (w # ws)) cur"
      using disabled_by_hit[of w keep f ws] True by simp
    have "snd (disable_each f keep (w # ws) sm) = snd (disable_each f keep ws ?sm')"
      by (simp only: step)
    also have "\<dots> = ?sm'(n \<mapsto> map (disabled_by f keep ws) ?cur')"
      by (rule Cons.IH) (use ws names in auto)
    also have "\<dots> = sm(n \<mapsto> map (disabled_by f keep (w # ws)) cur)"
      by (simp only: maps fun_upd_upd)
    finally show ?thesis .
  qed
qed

text \<open>When the listing is the stored list itself, each version is judged by its own fields.\<close>

lemma disabled_by_own_listing:
  assumes "set ws = set cur"
  shows "map (disabled_by f keep ws) cur = map (disabled_unless_failing f keep) cur"
proof (rule map_cong[OF refl])
  fix u assume "u \<in> set cur"
  with assms have "u \<in> set ws" by simp
  then show "disabled_by f keep ws u = disabled_unless_failing f keep u"
    by (auto simp add: disabled_by_def disabled_unless_failing_def)
qed

lemma ensure_secret_no_fault:
  assumes "get_secret_fault f = None" "create_secret_fault f = None"
  shows "ensure_secret f sm n = (Inr (), sm(n \<mapsto> versions_of sm n))"
  using assms
  by (auto simp add: ensure_secret_def get_secret_def create_secret_def versions_of_def
      fun_upd_idem split: option.splits)

lemma add_secret_version_no_fault:
  assumes "add_version_fault f = None" "sm n = Some vs"
  shows "add_secret_version f sm n data =
     (Inr (n, Suc (length vs)),
      sm(n \<mapsto> vs @ [\<lparr>vname = (n, Suc (length vs)), vstate = ENABLED, vdata = data\<rparr>]))"
  using assms by (simp add: add_secret_version_def Let_def)

lemma disable_prior_versions_returns:
  assumes "api_call_faults f"
  shows "fst (disable_prior_versions f sm n keep) = Inr ()"
proof -
  from assms have d: "\<And>vn err. disable_fault f vn = Some err \<Longrightarrow> is_api_call_error err"
    and l: "\<And>err. list_versions_fault f = Some err \<Longrightarrow> is_api_call_error err"
    by (auto simp add: api_call_faults_def)
  show ?thesis
    using l disable_each_returns[OF d]
    by (auto simp add: disable_prior_versions_def list_secret_versions_def
        split: sum.splits option.splits)
qed

lemma disable_prior_versions_effect:
  assumes "api_call_faults f" and "sm n = Some cur" and "\<forall>v \<in> set cur. fst (vname v) = n"
  shows "snd (disable_prior_versions f sm n keep) =
     sm(n \<mapsto> (if list_versions_fault f = None
                then map (disabled_unless_failing f keep) cur else cur))"
proof (cases "list_versions_fault f")
  case (Some err)
  with assms(1) have "is_api_call_error err" by (simp add: api_call_faults_def)
  with Some assms(2) show ?thesis
    by (simp add: disable_prior_versions_def list_secret_versions_def fun_upd_idem)
next
  case None
  from assms(1) have d: "\<And>vn err. disable_fault f vn = Some err \<Longrightarrow> is_api_call_error err"
    by (auto simp add: api_call_faults_def)
  have "snd (disable_each f keep (rev cur) sm) = sm(n \<mapsto> map (disabled_by f keep (rev cur)) cur)"
    by (rule disable_each_effect[of f sm n cur "rev cur" keep, OF d assms(2)]) (use assms(3) in auto)
  also have "map (disabled_by f keep (rev cur)) cur = map (disabled_unless_failing f keep) cur"
    by (rule disabled_by_own_listing) simp
  finally have eff: "snd (disable_each f keep (rev cur) sm) =
      sm(n \<mapsto> map (disabled_unless_failing f keep) cur)" .
  have ds: "disable_prior_versions f sm n keep = disable_each f keep (rev cur) sm"
    using None assms(2) by (simp add: disable_prior_versions_def list_secret_versions_def)
  show ?thesis
    by (simp only: ds eff None if_True simp_thms)
qed

text \<open>
  The naming of versions is kept by every call: a store that starts empty and is
  changed through the client only is always well named.
\<close>

lemma well_named_empty: "well_named Map.empty"
  by (simp add: well_named_def)

lemma well_named_upd:
  assumes "well_named sm" and "\<forall>v \<in> set vs. fst (vname v) = n"
  shows "well_named (sm(n \<mapsto> vs))"
  using assms by (auto simp add: well_named_def)

lemma well_named_lookup:
  assumes "well_named sm" and "sm n = Some vs" and "v \<in> set vs"
  shows "fst (vname v) = n"
  using assms unfolding well_named_def by blast

lemma well_named_disable_secret_version:
  assumes "well_named sm"
  shows "well_named (snd (disable_secret_version f sm vn))"
proof (cases "disable_fault f vn = None \<and> (\<exists>vs. sm (fst vn) = Some vs \<and> vn \<in> set (map vname vs))")
  case False
  with assms show ?thesis
    by (auto simp add: disable_secret_version_def split: option.splits)
next
  case True
  then obtain vs where vs: "sm (fst vn) = Some vs" "vn \<in> set (map vname vs)"
    and nf: "disable_fault f vn = None"
    by blast
  have "\<forall>v \<in> set (map (set_disabled vn) vs). fst (vname v) = fst vn"
    using well_named_lookup[OF assms vs(1)] by (auto simp add: vname_set_disabled)
  then have "well_named (sm(fst vn \<mapsto> map (set_disabled vn) vs))"
    by (rule well_named_upd[OF assms])
  with vs nf show ?thesis
    by (simp add: disable_secret_version_def)
qed

lemma well_named_disable_each:
  "well_named sm \<Longrightarrow> well_named (snd (disable_each f keep ws sm))"
proof (induction ws arbitrary: sm)
  case Nil
  then show ?case by simp
next
  case (Cons w ws)
  from Cons.prems have "well_named (snd (disable_secret_version f sm (vname w)))"
    by (rule well_named_disable_secret_version)
  with Cons show ?case
    by (auto split: prod.splits sum.splits)
qed

lemma well_named_write_secret:
  assumes "well_named sm"
  shows "well_named (snd (write_secret f sm n data))"
proof -
  have e: "well_named (snd (ensure_secret f sm n))"
    using assms
    by (auto simp add: ensure_secret_def get_secret_def create_secret_def well_named_upd
        split: sum.splits option.splits gcp_exception.splits)
  have a: "well_named (snd (add_secret_version f sm1 n data))" if "well_named sm1" for sm1
  proof (cases "add_version_fault f = None \<and> (\<exists>vs. sm1 n = Some vs)")
    case False
    with that show ?thesis
      by (auto simp add: add_secret_version_def split: option.splits)
  next
    case True
    then obtain vs where vs: "sm1 n = Some vs" and nf: "add_version_fault f = None"
      by blast
    have "\<forall>v \<in> set (vs @ [\<lparr>vname = (n, Suc (length vs)), vstate = ENABLED, vdata = data\<rparr>]).
            fst (vname v) = n"
      using well_named_lookup[OF that vs] by auto
    then have "well_named (sm1(n \<mapsto> vs @ [\<lparr>vname = (n, Suc (length vs)), vstate = ENABLED,
                                              vdata = data\<rparr>]))"
      by (rule well_named_upd[OF that])
    with vs nf show ?thesis
      by (simp add: add_secret_version_def Let_def)
  qed
  have d: "well_named (snd (disable_prior_versions f sm2 n keep))" if "well_named sm2" for sm2 keep
    using that well_named_disable_each[OF that]
    by (simp add: disable_prior_versions_def split: sum.splits)
  obtain r1 sm1 where r1: "ensure_secret f sm n = (r1, sm1)"
    by (cases "ensure_secret f sm n")
  obtain r2 sm2 where r2: "add_secret_version f sm1 n data = (r2, sm2)"
    by (cases "add_secret_version f sm1 n data")
  from e r1 have w1: "well_named sm1" by simp
  from a[OF w1] r2 have w2: "well_named sm2" by simp
  show ?thesis
  proof (cases r1)
    case (Inl err)
    with r1 w1 show ?thesis by (simp add: write_secret_def)
  next
    case u: (Inr u)
    show ?thesis
    proof (cases r2)
      case (Inl err)
      with r1 r2 u w2 show ?thesis by (simp add: write_secret_def)
    next
      case (Inr keep)
      obtain r3 sm3 where r3: "disable_prior_versions f sm2 n keep = (r3, sm3)"
        by (cases "disable_prior_versions f sm2 n keep")
      from d[OF w2, of keep] r3 have "well_named sm3" by simp
      with r1 r2 r3 u Inr show ?thesis
        by (cases r3) (simp_all add: write_secret_def)
    qed
  qed
qed

text \<open>
  Claim C8. With \<open>get_secret\<close>, \<open>create_secret\<close> and \<open>add_secret_version\<close> answering,
  \<open>write_secret\<close> returns the name of the version it added, whatever
  \<open>GoogleAPICallError\<close>s the listing and the \<open>disable_secret_version\<close> calls raise.
  Afterwards the secret exists, its last version is the new one, enabled, with the
  payload; every earlier enabled version whose disabling did not fail is disabled, also
  those that come after a failing one; a failed listing leaves all of them as they were.
\<close>

theorem write_secret_best_effort:
  assumes "get_secret_fault f = None" and "create_secret_fault f = None"
    and "add_version_fault f = None" and "api_call_faults f"
  shows "fst (write_secret f sm n data) = Inr (n, Suc (length (versions_of sm n)))
       \<and> (well_named sm \<longrightarrow>
            snd (write_secret f sm n data) =
              sm(n \<mapsto> (if list_versions_fault f = None
                           then map (disabled_unless_failing f (n, Suc (length (versions_of sm n))))
                                  (versions_of sm n)
                           else versions_of sm n)
                        @ [\<lparr>vname = (n, Suc (length (versions_of sm n))), vstate = ENABLED,
                             vdata = data\<rparr>]))"
proof -
  let ?vs = "versions_of sm n"
  let ?keep = "(n, Suc (length ?vs))"
  let ?new = "\<lparr>vname = ?keep, vstate = ENABLED, vdata = data\<rparr>"
  let ?sm1 = "sm(n \<mapsto> ?vs)"
  let ?sm2 = "sm(n \<mapsto> ?vs @ [?new])"
  have e: "ensure_secret f sm n = (Inr (), ?sm1)"
    by (rule ensure_secret_no_fault[OF assms(1,2)])
  have a: "add_secret_version f ?sm1 n data = (Inr ?keep, ?sm2)"
    using add_secret_version_no_fault[OF assms(3), of ?sm1 n ?vs data] by simp
  obtain sm3 where d: "disable_prior_versions f ?sm2 n ?keep = (Inr (), sm3)"
    using disable_prior_versions_returns[OF assms(4), of ?sm2 n ?keep]
    by (cases "disable_prior_versions f ?sm2 n ?keep") auto
  have w: "write_secret f sm n data = (Inr ?keep, sm3)"
    by (simp add: write_secret_def e a d)
  have "sm3 = sm(n \<mapsto> (if list_versions_fault f = None
                           then map (disabled_unless_failing f ?keep) ?vs else ?vs) @ [?new])"
    if wn: "well_named sm"
  proof -
    have "fst (vname v) = n" if "v \<in> set ?vs" for v
    proof (cases "sm n")
      case None
      with that show ?thesis by (simp add: versions_of_def)
    next
      case (Some vs)
      with that have "v \<in> set vs" by (simp add: versions_of_def)
      with wn Some show ?thesis unfolding well_named_def by blast
    qed
    then have names: "\<forall>v \<in> set (?vs @ [?new]). fst (vname v) = n"
      by auto
    have "snd (disable_prior_versions f ?sm2 n ?keep) =
        ?sm2(n \<mapsto> (if list_versions_fault f = None
                then map (disabled_unless_failing f ?keep) (?vs @ [?new]) else ?vs @ [?new]))"
      by (rule disable_prior_versions_effect[OF assms(4) _ names]) simp
    moreover have "disabled_unless_failing f ?keep ?new = ?new"
      by (simp add: disabled_unless_failing_def)
    ultimately show ?thesis
      using d by simp
  qed
  with w show ?thesis by simp
qed

theorem write_secret_best_effort_witness:
  "api_call_faults second_disable_fails
   \<and> well_named two_versions
   \<and> fst (write_secret second_disable_fails two_versions ''meli-tokens'' (Encoded Empty_str))
       = Inr (''meli-tokens'', 3)
   \<and> snd (write_secret second_disable_fails two_versions ''meli-tokens'' (Encoded Empty_str))
         ''meli-tokens''
       = Some [\<lparr>vname = (''meli-tokens'', 1), vstate = DISABLED, vdata = Encoded Garbled\<rparr>,
               \<lparr>vname = (''meli-tokens'', 2), vstate = ENABLED, vdata = Encoded Garbled\<rparr>,
               \<lparr>vname = (''meli-tokens'', 3), vstate = ENABLED, vdata = Encoded Empty_str\<rparr>]"
proof -
  have f: "get_secret_fault second_disable_fails = None"
    "create_secret_fault second_disable_fails = None"
    "add_version_fault second_disable_fails = None"
    "list_versions_fault second_disable_fails = None"
    by (simp_all add: second_disable_fails_def no_faults_def)
  have c: "api_call_faults second_disable_fails"
    by (simp add: api_call_faults_def second_disable_fails_def no_faults_def)
  have n: "well_named two_versions"
    by (auto simp add: well_named_def two_versions_def split: if_splits)
  have v: "versions_of two_versions ''meli-tokens'' =
     [\<lparr>vname = (''meli-tokens'', 1), vstate = ENABLED, vdata = Encoded Garbled\<rparr>,
      \<lparr>vname = (''meli-tokens'', 2), vstate = ENABLED, vdata = Encoded Garbled\<rparr>]"
    by (simp add: versions_of_def two_versions_def)
  have d: "disable_fault second_disable_fails (''meli-tokens'', 1) = None"
    "disable_fault second_disable_fails (''meli-tokens'', 2) = Some APICallError"
    by (simp_all add: second_disable_fails_def no_faults_def)
  from write_secret_best_effort[OF f(1-3) c, of two_versions "''meli-tokens''" "Encoded Empty_str"]
    c n v d f(4)
  show ?thesis
    by (simp add: disabled_unless_failing_def)
qed

section \<open>The order of commit and writes\<close>

lemma refresh_once_shape:
  "(\<exists>err. refresh_once self e st = (Inl err, st))
   \<or> (\<exists>err rt. refresh_once self e st = (Inl err, emit (Http_post ''refresh_token'' rt) st))
   \<or> (\<exists>err rt. refresh_once self e st
         = (Inl err, emit (Log ERROR ''Refresh request failed: %s'')
                       (emit (Http_post ''refresh_token'' rt) st)))
   \<or> (\<exists>rt td. refresh_once self e st
         = commit_and_persist self e td (emit (Http_post ''refresh_token'' rt) st))"
proof (cases "refresh_token_to_use self st")
  case (Inl err)
  then show ?thesis by (simp add: refresh_once_def)
next
  case (Inr rt)
  have "request_refresh e rt st = (Inl RequestException, emit (Http_post ''refresh_token'' rt) st)
      \<or> request_refresh e rt st = (Inl ResponseNotJSON, emit (Http_post ''refresh_token'' rt) st)
      \<or> request_refresh e rt st = (Inl (RuntimeError ''Token refresh failed''),
           emit (Log ERROR ''Refresh request failed: %s'') (emit (Http_post ''refresh_token'' rt) st))
      \<or> (\<exists>pl. request_refresh e rt st = (Inr pl, emit (Http_post ''refresh_token'' rt) st))"
    by (simp add: request_refresh_def Let_def split: post_result.splits option.splits)
  then show ?thesis
    using Inr
    by (elim disjE exE) (auto simp add: refresh_once_def Let_def split: sum.splits)
qed

lemma commit_and_persist_file_failure:
  assumes "file_write_fails e"
  shows "commit_and_persist self e td st =
     (Inl OSError, emit (File_write td) (emit (Commit td) (st\<lparr>tokens := td\<rparr>)))"
  using assms by (simp add: commit_and_persist_def write_tokens_file_def Let_def)

text \<open>
  Claim C1, as the code has it. In a successful \<open>refresh_once\<close> the new token set is
  first assigned to \<open>self._tokens\<close>, then written to the token file, then to the secret
  store: commit, file write, secret write, in this order. The file write comes before
  the secret write, as the claim says; the commit comes before both and not after them.
  When the file write fails, \<open>refresh_once\<close> raises with the secret store untouched and
  no secret write attempted, and \<open>self._tokens\<close> already holds the new token set.
\<close>

theorem commit_then_file_then_secret:
  "(\<forall>td st'. refresh_once self e st = (Inr td, st') \<longrightarrow>
      (\<exists>rt. trace st' = trace st @
               [Http_post ''refresh_token'' rt, Commit td, File_write td,
                Secret_write (tokens_secret_name self) td, Log INFO refreshed_message])
      \<and> happens_before is_commit is_file_write (drop (length (trace st)) (trace st'))
      \<and> happens_before is_file_write is_secret_write (drop (length (trace st)) (trace st'))
      \<and> tokens st' = td
      \<and> token_file st' = Holds (json_dumps td)
      \<and> (\<exists>version. write_secret (gcp_faults e) (secrets st) (tokens_secret_name self)
                       (Encoded (json_dumps td)) = (Inr version, secrets st')))
   \<and> (file_write_fails e \<longrightarrow>
        (\<exists>err. fst (refresh_once self e st) = Inl err)
        \<and> secrets (snd (refresh_once self e st)) = secrets st
        \<and> token_file (snd (refresh_once self e st)) = token_file st
        \<and> filter is_secret_write (trace (snd (refresh_once self e st)))
            = filter is_secret_write (trace st)
        \<and> (\<forall>td. File_write td \<in> set (drop (length (trace st)) (trace (snd (refresh_once self e st))))
              \<longrightarrow> fst (refresh_once self e st) = Inl OSError
                  \<and> tokens (snd (refresh_once self e st)) = td))"
proof -
  have success: "(\<exists>rt. trace st' = trace st @
               [Http_post ''refresh_token'' rt, Commit td, File_write td,
                Secret_write (tokens_secret_name self) td, Log INFO refreshed_message])
      \<and> happens_before is_commit is_file_write (drop (length (trace st)) (trace st'))
      \<and> happens_before is_file_write is_secret_write (drop (length (trace st)) (trace st'))
      \<and> tokens st' = td
      \<and> token_file st' = Holds (json_dumps td)
      \<and> (\<exists>version. write_secret (gcp_faults e) (secrets st) (tokens_secret_name self)
                       (Encoded (json_dumps td)) = (Inr version, secrets st'))"
    if "refresh_once self e st = (Inr td, st')" for td st'
  proof -
    from that obtain rt kvs where kvs: "td = JObj kvs"
      and cp: "commit_and_persist self e (JObj kvs) (emit (Http_post ''refresh_token'' rt) st)
                 = (Inr td, st')"
      by (rule refresh_once_InrD)
    from cp obtain version sm where
      ws: "write_secret (gcp_faults e) (secrets (emit (Http_post ''refresh_token'' rt) st))
             (tokens_secret_name self) (Encoded (json_dumps (JObj kvs))) = (Inr version, sm)"
      and st': "st' = \<lparr>tokens = JObj kvs, token_file = Holds (json_dumps (JObj kvs)), secrets = sm,
            trace = trace (emit (Http_post ''refresh_token'' rt) st)
              @ [Commit (JObj kvs), File_write (JObj kvs),
                 Secret_write (tokens_secret_name self) (JObj kvs), Log INFO refreshed_message]\<rparr>"
      by (rule commit_and_persist_InrD)
    have tr: "trace st' = trace st @
               [Http_post ''refresh_token'' rt, Commit td, File_write td,
                Secret_write (tokens_secret_name self) td, Log INFO refreshed_message]"
      using st' kvs by (simp add: emit_fields)
    then have "drop (length (trace st)) (trace st') =
               [Http_post ''refresh_token'' rt, Commit td, File_write td,
                Secret_write (tokens_secret_name self) td, Log INFO refreshed_message]"
      by simp
    then have hb: "happens_before is_commit is_file_write (drop (length (trace st)) (trace st'))"
      "happens_before is_file_write is_secret_write (drop (length (trace st)) (trace st'))"
      by (simp_all add: happens_before_def)
    from ws st' kvs have "write_secret (gcp_faults e) (secrets st) (tokens_secret_name self)
                       (Encoded (json_dumps td)) = (Inr version, secrets st')"
      by (simp add: emit_fields)
    with tr hb st' kvs show ?thesis by auto
  qed
  have failure: "(\<exists>err. fst (refresh_once self e st) = Inl err)
        \<and> secrets (snd (refresh_once self e st)) = secrets st
        \<and> token_file (snd (refresh_once self e st)) = token_file st
        \<and> filter is_secret_write (trace (snd (refresh_once self e st)))
            = filter is_secret_write (trace st)
        \<and> (\<forall>td. File_write td \<in> set (drop (length (trace st)) (trace (snd (refresh_once self e st))))
              \<longrightarrow> fst (refresh_once self e st) = Inl OSError
                  \<and> tokens (snd (refresh_once self e st)) = td)"
    if "file_write_fails e"
    using refresh_once_shape[of self e st]
    by (elim disjE exE) (simp_all add: commit_and_persist_file_failure[OF that] emit_def)
  from success failure show ?thesis by blast
qed

theorem commit_then_file_then_secret_witness:
  "fst (refresh_once ex_rotator ex_env ex_state) = Inr ex_token_data
   \<and> tokens (snd (refresh_once ex_rotator ex_env ex_state)) = ex_token_data
   \<and> token_file (snd (refresh_once ex_rotator ex_env ex_state)) = Holds (json_dumps ex_token_data)
   \<and> file_write_fails failing_file_env
   \<and> secrets (snd (refresh_once ex_rotator failing_file_env ex_state)) = secrets ex_state"
proof -
  have f: "file_write_fails failing_file_env"
    by (simp add: failing_file_env_def)
  from commit_then_file_then_secret[of ex_rotator ex_env ex_state]
    commit_then_file_then_secret[of ex_rotator failing_file_env ex_state]
    ex_refresh_once f
  show ?thesis
    by (simp add: ex_refresh_once_fst)
qed

text \<open>
  The order the claim states does not hold: in the successful cycle of the example the
  commit is the second event, before the file write and the secret write; and with a
  failing file write the token set in memory is replaced although no secret write was
  attempted.
\<close>

theorem commit_precedes_both_writes:
  "fst (refresh_once ex_rotator ex_env ex_state) = Inr ex_token_data
   \<and> trace (snd (refresh_once ex_rotator ex_env ex_state)) =
       [Http_post ''refresh_token'' (JStr ''R''), Commit ex_token_data, File_write ex_token_data,
        Secret_write ''meli-tokens'' ex_token_data, Log INFO refreshed_message]
   \<and> \<not> happens_before is_secret_write is_commit (trace (snd (refresh_once ex_rotator ex_env ex_state)))
   \<and> \<not> happens_before is_file_write is_commit (trace (snd (refresh_once ex_rotator ex_env ex_state)))
   \<and> happens_before is_commit is_file_write (trace (snd (refresh_once ex_rotator ex_env ex_state)))
   \<and> fst (refresh_once ex_rotator failing_file_env ex_state) = Inl OSError
   \<and> tokens ex_state \<noteq> tokens (snd (refresh_once ex_rotator failing_file_env ex_state))
   \<and> tokens (snd (refresh_once ex_rotator failing_file_env ex_state)) = ex_token_data
   \<and> filter is_secret_write (trace (snd (refresh_once ex_rotator failing_file_env ex_state))) = []
   \<and> secrets (snd (refresh_once ex_rotator failing_file_env ex_state)) ''meli-tokens'' = None"
  by (simp add: failing_file_env_def example_defs refresh_defs storage_defs happens_before_def)

section \<open>Initialization of the rotator\<close>

lemma load_tokens_from_file_truthy:
  "truthy (fst (load_tokens_from_file st)) \<longleftrightarrow> (\<exists>v. token_file st = Holds (Dumps v) \<and> truthy v)"
  by (cases "token_file st"; simp add: load_tokens_from_file_def split: pystr.splits)
     (rename_tac t, case_tac t; simp)

lemma load_tokens_from_file_keeps:
  "token_file (snd (load_tokens_from_file st)) = token_file st"
  "secrets (snd (load_tokens_from_file st)) = secrets st"
  "tokens (snd (load_tokens_from_file st)) = tokens st"
  by (auto simp add: load_tokens_from_file_def emit_def split: file_state.splits option.splits)

lemma bootstrap_from_file:
  assumes "token_file st = Holds (Dumps v)" and "truthy v"
  shows "rotator_bootstrap_tokens self e st = (Inr v, st)"
  using assms by (simp add: rotator_bootstrap_tokens_def load_tokens_from_file_def)

lemma load_tokens_from_secret_cases:
  "load_tokens_from_secret self e st1 =
     (case read_secret (gcp_faults e) (secrets st1) (tokens_secret_name self) of
        Inl err \<Rightarrow> (Inl err, st1)
      | Inr (Some (Dumps v)) \<Rightarrow> (Inr v, st1)
      | Inr (Some Garbled) \<Rightarrow>
          (Inr (JObj []), emit (Log ERROR ''Secret %s exists but is not valid JSON: %s'') st1)
      | Inr p \<Rightarrow> (Inr (JObj []), st1))"
  by (simp add: load_tokens_from_secret_def split: sum.splits option.splits pystr.splits)

lemma bootstrap_from_secret:
  assumes "\<not> (\<exists>v. token_file st = Holds (Dumps v) \<and> truthy v)"
  shows "rotator_bootstrap_tokens self e st =
     (case load_tokens_from_secret self e (snd (load_tokens_from_file st)) of
        (Inl err, st2) \<Rightarrow> (Inl err, st2)
      | (Inr tokens2, st2) \<Rightarrow>
          if truthy tokens2 then
            (if file_write_fails e then (Inl OSError, emit (File_write tokens2) st2)
             else (Inr tokens2,
                   (emit (File_write tokens2) st2)\<lparr>token_file := Holds (json_dumps tokens2)\<rparr>))
          else (Inl (RuntimeError no_tokens_message), st2))"
proof -
  from assms have "\<not> truthy (fst (load_tokens_from_file st))"
    by (simp add: load_tokens_from_file_truthy)
  moreover obtain t1 st1 where l: "load_tokens_from_file st = (t1, st1)"
    by (cases "load_tokens_from_file st")
  ultimately have "\<not> truthy t1" by simp
  with l show ?thesis
    by (simp add: rotator_bootstrap_tokens_def write_tokens_file_def Let_def
        split: prod.splits sum.splits)
qed

text \<open>
  Claim C3, as the code has it. \<open>_bootstrap_tokens\<close> adopts the content of the token file
  when it parses to a truthy JSON value (a non-empty dict, for one), whatever keys it
  has, and then touches nothing else. Otherwise it reads the secret: an exception of the
  read propagates; a payload that parses to a truthy value is written to the token file
  and adopted (an \<open>OSError\<close> of that write propagates); in every other case (no
  secret, an empty or unparseable payload, a falsy value) it raises the
  \<open>RuntimeError\<close> "No existing tokens found", with file and secret store as they were.
  \<open>__init__\<close> assigns the adopted value to \<open>self._tokens\<close>.
\<close>

theorem rotator_bootstrap_adopts_truthy:
  "(\<forall>v. token_file st = Holds (Dumps v) \<and> truthy v
        \<longrightarrow> rotator_bootstrap_tokens self e st = (Inr v, st))
   \<and> (\<not> (\<exists>v. token_file st = Holds (Dumps v) \<and> truthy v) \<longrightarrow>
        (\<forall>err. read_secret (gcp_faults e) (secrets st) (tokens_secret_name self) = Inl err
            \<longrightarrow> fst (rotator_bootstrap_tokens self e st) = Inl err)
      \<and> (\<forall>v. read_secret (gcp_faults e) (secrets st) (tokens_secret_name self)
                = Inr (Some (Dumps v)) \<and> truthy v
            \<longrightarrow> (if file_write_fails e
                 then fst (rotator_bootstrap_tokens self e st) = Inl OSError
                      \<and> token_file (snd (rotator_bootstrap_tokens self e st)) = token_file st
                 else fst (rotator_bootstrap_tokens self e st) = Inr v
                      \<and> token_file (snd (rotator_bootstrap_tokens self e st))
                          = Holds (json_dumps v))
                \<and> secrets (snd (rotator_bootstrap_tokens self e st)) = secrets st)
      \<and> (\<forall>p. read_secret (gcp_faults e) (secrets st) (tokens_secret_name self) = Inr p
                \<and> (\<forall>v. p = Some (Dumps v) \<longrightarrow> \<not> truthy v)
            \<longrightarrow> fst (rotator_bootstrap_tokens self e st) = Inl (RuntimeError no_tokens_message)
                \<and> token_file (snd (rotator_bootstrap_tokens self e st)) = token_file st
                \<and> secrets (snd (rotator_bootstrap_tokens self e st)) = secrets st))
   \<and> (\<forall>cfg self' st'. TokenRotator_init cfg e st = (Inr self', st')
        \<longrightarrow> fst (rotator_bootstrap_tokens self' e st) = Inr (tokens st'))"
proof -
  let ?st1 = "snd (load_tokens_from_file st)"
  let ?rd = "read_secret (gcp_faults e) (secrets st) (tokens_secret_name self)"
  note keeps = load_tokens_from_file_keeps[of st]
  have from_file: "rotator_bootstrap_tokens self e st = (Inr v, st)"
    if "token_file st = Holds (Dumps v) \<and> truthy v" for v
    using that by (simp add: bootstrap_from_file)
  have read_fails: "fst (rotator_bootstrap_tokens self e st) = Inl err"
    if "\<not> (\<exists>v. token_file st = Holds (Dumps v) \<and> truthy v)" and "?rd = Inl err" for err
    using that(2)
    by (simp add: bootstrap_from_secret[OF that(1)] load_tokens_from_secret_cases keeps)
  have from_secret: "(if file_write_fails e
                 then fst (rotator_bootstrap_tokens self e st) = Inl OSError
                      \<and> token_file (snd (rotator_bootstrap_tokens self e st)) = token_file st
                 else fst (rotator_bootstrap_tokens self e st) = Inr v
                      \<and> token_file (snd (rotator_bootstrap_tokens self e st))
                          = Holds (json_dumps v))
                \<and> secrets (snd (rotator_bootstrap_tokens self e st)) = secrets st"
    if "\<not> (\<exists>v. token_file st = Holds (Dumps v) \<and> truthy v)"
      and "?rd = Inr (Some (Dumps v)) \<and> truthy v" for v
    using that(2)
    by (simp add: bootstrap_from_secret[OF that(1)] load_tokens_from_secret_cases keeps
        emit_fields)
  have neither: "fst (rotator_bootstrap_tokens self e st) = Inl (RuntimeError no_tokens_message)
          \<and> token_file (snd (rotator_bootstrap_tokens self e st)) = token_file st
          \<and> secrets (snd (rotator_bootstrap_tokens self e st)) = secrets st"
    if "\<not> (\<exists>v. token_file st = Holds (Dumps v) \<and> truthy v)"
      and "?rd = Inr p \<and> (\<forall>v. p = Some (Dumps v) \<longrightarrow> \<not> truthy v)" for p
    using that(2)
    by (cases p; simp add: bootstrap_from_secret[OF that(1)] load_tokens_from_secret_cases keeps
        emit_fields split: pystr.splits)
  have init: "fst (rotator_bootstrap_tokens self' e st) = Inr (tokens st')"
    if "TokenRotator_init cfg e st = (Inr self', st')" for cfg self' st'
    using that
    by (auto simp add: TokenRotator_init_def Let_def split: sum.splits prod.splits)
  from from_file read_fails from_secret neither init show ?thesis by blast
qed

theorem rotator_bootstrap_adopts_truthy_witness:
  "token_file seeded_secret_state = Missing
   \<and> read_secret (gcp_faults ex_env) (secrets seeded_secret_state) (tokens_secret_name ex_rotator)
       = Inr (Some (Dumps seed_tokens))
   \<and> truthy seed_tokens
   \<and> fst (rotator_bootstrap_tokens ex_rotator ex_env seeded_secret_state) = Inr seed_tokens
   \<and> token_file (snd (rotator_bootstrap_tokens ex_rotator ex_env seeded_secret_state))
       = Holds (Dumps seed_tokens)
   \<and> secrets (snd (rotator_bootstrap_tokens ex_rotator ex_env seeded_secret_state))
       = secrets seeded_secret_state"
proof -
  have f: "token_file seeded_secret_state = Missing"
    by (simp add: seeded_secret_state_def)
  then have nf: "\<not> (\<exists>v. token_file seeded_secret_state = Holds (Dumps v) \<and> truthy v)"
    by simp
  have r: "read_secret (gcp_faults ex_env) (secrets seeded_secret_state)
             (tokens_secret_name ex_rotator) = Inr (Some (Dumps seed_tokens))"
    by (simp add: read_secret_def access_latest_def seeded_secret_state_def example_defs)
  have t: "truthy seed_tokens"
    by (simp add: seed_tokens_def)
  have w: "\<not> file_write_fails ex_env"
    by (simp add: example_defs)
  from rotator_bootstrap_adopts_truthy[of seeded_secret_state ex_rotator ex_env] nf r t w
  have "fst (rotator_bootstrap_tokens ex_rotator ex_env seeded_secret_state) = Inr seed_tokens
      \<and> token_file (snd (rotator_bootstrap_tokens ex_rotator ex_env seeded_secret_state))
          = Holds (json_dumps seed_tokens)
      \<and> secrets (snd (rotator_bootstrap_tokens ex_rotator ex_env seeded_secret_state))
          = secrets seeded_secret_state"
    by simp
  with f r t show ?thesis by (simp add: json_dumps_def)
qed

text \<open>
  A token file holding \<open>{"foo": "bar"}\<close> has neither an access token nor a refresh
  token, and it is adopted all the same; the secret store is not asked.
\<close>

theorem file_without_tokens_is_adopted:
  "token_file foo_file_state = Holds (Dumps foo_tokens)
   \<and> field foo_tokens ''access_token'' = None
   \<and> field foo_tokens ''refresh_token'' = None
   \<and> rotator_bootstrap_tokens ex_rotator ex_env foo_file_state = (Inr foo_tokens, foo_file_state)
   \<and> fst (TokenRotator_init ex_config ex_env foo_file_state)
       = Inr \<lparr>rconfig = ex_config, tokens_secret_name = ''meli-tokens'',
              rotation_interval_seconds = DEFAULT_ROTATION_INTERVAL\<rparr>
   \<and> tokens (snd (TokenRotator_init ex_config ex_env foo_file_state)) = foo_tokens"
  by (simp add: foo_file_state_def foo_tokens_def ex_config_def example_defs
      TokenRotator_init_def require_def GCPSecretStorage_def
      rotator_bootstrap_tokens_def load_tokens_from_file_def)

section \<open>The bootstrap flow\<close>

lemmas initializer_defs = bootstrap_tokens_def obtain_auth_code_def prompt_auth_code_def
  exchange_code_def persist_bootstrap_def GCPSecretStorage_def

text \<open>
  Claim C2, on the code. \<open>bootstrap_tokens\<close> does not look at the body of a successful
  exchange: a body without \<open>access_token\<close> is returned as the token set, written to the
  token file and added to the secret as its enabled latest version. The same body makes
  \<open>refresh_once\<close> raise before any write.
\<close>

theorem bootstrap_persists_body_without_access_token:
  "post tokenless_exchange_env = Response 200 (Some tokenless_body)
   \<and> \<not> raise_for_status 200
   \<and> \<not> has_access_token tokenless_body
   \<and> fst (bootstrap_tokens ex_config (Some ''CODE'') tokenless_exchange_env empty_state)
       = Inr tokenless_body
   \<and> token_file (snd (bootstrap_tokens ex_config (Some ''CODE'') tokenless_exchange_env empty_state))
       = Holds (Dumps tokenless_body)
   \<and> secrets (snd (bootstrap_tokens ex_config (Some ''CODE'') tokenless_exchange_env empty_state))
         ''meli-tokens''
       = Some [\<lparr>vname = (''meli-tokens'', 1), vstate = ENABLED,
                 vdata = Encoded (Dumps tokenless_body)\<rparr>]
   \<and> fst (refresh_once ex_rotator tokenless_exchange_env ex_state)
       = Inl (RuntimeError no_access_token_message)
   \<and> token_file (snd (refresh_once ex_rotator tokenless_exchange_env ex_state)) = Missing"
  by (simp add: tokenless_exchange_env_def tokenless_body_def empty_state_def ex_config_def
      example_defs initializer_defs refresh_defs storage_defs has_access_token_def)

section \<open>The token reader\<close>

lemma get_token_payload_configured:
  assumes "cfg ''MELI_TOKENS_SECRET_NAME'' = Some n" and "cfg ''GCP_PROJECT_ID'' = Some pid"
    and "pid \<noteq> []" and "read_secret f (secrets st) n = Inr p"
  shows "get_token_payload cfg f st =
     (case p of
        None \<Rightarrow> Inl (RuntimeError (not_found_message n pid))
      | Some Empty_str \<Rightarrow> Inl (RuntimeError (not_found_message n pid))
      | Some Garbled \<Rightarrow> Inl (RuntimeError (invalid_json_message n))
      | Some (Dumps v) \<Rightarrow> Inr v)"
  using assms
  by (simp add: get_token_payload_def require_def GCPSecretStorage_def
      split: option.splits pystr.splits)

lemma json_loads_None: "json_loads t = None \<longleftrightarrow> t = Empty_str \<or> t = Garbled"
  by (cases t) auto

lemma reader_ignores_token_file:
  "get_token_payload cfg f (st\<lparr>token_file := fl\<rparr>) = get_token_payload cfg f st"
  "get_access_token cfg f (st\<lparr>token_file := fl\<rparr>) = get_access_token cfg f st"
  by (simp_all add: get_access_token_def get_token_payload_def cong: sum.case_cong)

text \<open>
  Claim C9, as the code has it. With the two configuration keys present and the secret
  store answering the read (a payload or "not found"), \<open>get_token_payload\<close> fails exactly
  when the secret is absent or its payload is empty or not valid JSON, and otherwise
  returns the parsed payload, whether or not it has an access token;
  \<open>get_access_token\<close> fails in these cases and also when the payload's \<open>access_token\<close> is
  missing or empty, and otherwise returns that field. Neither depends on the token file.
\<close>

theorem token_reader_failures:
  assumes "cfg ''MELI_TOKENS_SECRET_NAME'' = Some n" and "cfg ''GCP_PROJECT_ID'' = Some pid"
    and "pid \<noteq> []" and "read_secret f (secrets st) n = Inr p"
  shows "((\<exists>err. get_token_payload cfg f st = Inl err)
            \<longleftrightarrow> p = None \<or> (\<exists>t. p = Some t \<and> json_loads t = None))
       \<and> (\<forall>v. p = Some (Dumps v) \<longrightarrow> get_token_payload cfg f st = Inr v)
       \<and> (p = None \<longrightarrow> get_token_payload cfg f st = Inl (RuntimeError (not_found_message n pid)))
       \<and> (p = Some Garbled
            \<longrightarrow> get_token_payload cfg f st = Inl (RuntimeError (invalid_json_message n)))
       \<and> ((\<exists>err. get_access_token cfg f st = Inl err)
            \<longleftrightarrow> p = None \<or> (\<exists>t. p = Some t \<and> json_loads t = None)
                \<or> (\<exists>v. p = Some (Dumps v) \<and> \<not> has_access_token v))
       \<and> (\<forall>v. p = Some (Dumps v) \<and> has_access_token v
            \<longrightarrow> dict_get v ''access_token'' = get_access_token cfg f st)
       \<and> (\<forall>fl. get_token_payload cfg f (st\<lparr>token_file := fl\<rparr>) = get_token_payload cfg f st
              \<and> get_access_token cfg f (st\<lparr>token_file := fl\<rparr>) = get_access_token cfg f st)"
proof -
  note gp = get_token_payload_configured[OF assms]
  have payload_fails: "(\<exists>err. get_token_payload cfg f st = Inl err)
            \<longleftrightarrow> p = None \<or> (\<exists>t. p = Some t \<and> json_loads t = None)"
    unfolding gp by (auto simp add: json_loads_None split: option.splits pystr.splits)
  have payload_ok: "get_token_payload cfg f st = Inr v" if "p = Some (Dumps v)" for v
    unfolding gp using that by simp
  have absent: "get_token_payload cfg f st = Inl (RuntimeError (not_found_message n pid))"
    if "p = None"
    unfolding gp using that by simp
  have garbled: "get_token_payload cfg f st = Inl (RuntimeError (invalid_json_message n))"
    if "p = Some Garbled"
    unfolding gp using that by simp
  have token_fails: "(\<exists>err. get_access_token cfg f st = Inl err)
            \<longleftrightarrow> p = None \<or> (\<exists>t. p = Some t \<and> json_loads t = None)
                \<or> (\<exists>v. p = Some (Dumps v) \<and> \<not> has_access_token v)"
    unfolding get_access_token_def gp
    by (auto simp add: json_loads_None has_access_token_def split: option.splits pystr.splits
        sum.splits)
  have token_ok: "dict_get v ''access_token'' = get_access_token cfg f st"
    if "p = Some (Dumps v) \<and> has_access_token v" for v
    unfolding get_access_token_def gp using that
    by (auto simp add: has_access_token_def split: sum.splits)
  from payload_fails payload_ok absent garbled token_fails token_ok reader_ignores_token_file
  show ?thesis by blast
qed

theorem token_reader_failures_witness:
  "ex_config ''MELI_TOKENS_SECRET_NAME'' = Some ''meli-tokens''
   \<and> ex_config ''GCP_PROJECT_ID'' = Some ''notorios''
   \<and> read_secret no_faults (secrets seeded_secret_state) ''meli-tokens''
       = Inr (Some (Dumps seed_tokens))
   \<and> has_access_token seed_tokens
   \<and> get_token_payload ex_config no_faults seeded_secret_state = Inr seed_tokens
   \<and> get_access_token ex_config no_faults seeded_secret_state = Inr (JStr ''A'')"
proof -
  have c: "ex_config ''MELI_TOKENS_SECRET_NAME'' = Some ''meli-tokens''"
    "ex_config ''GCP_PROJECT_ID'' = Some ''notorios''"
    by (simp_all add: ex_config_def)
  have p: "''notorios'' \<noteq> []" by simp
  have r: "read_secret no_faults (secrets seeded_secret_state) ''meli-tokens''
       = Inr (Some (Dumps seed_tokens))"
    by (simp add: read_secret_def access_latest_def seeded_secret_state_def no_faults_def)
  have h: "has_access_token seed_tokens" "dict_get seed_tokens ''access_token'' = Inr (JStr ''A'')"
    by (simp_all add: has_access_token_def seed_tokens_def)
  from token_reader_failures[OF c p r] c r h show ?thesis
    by simp
qed

text \<open>
  A stored payload without \<open>access_token\<close>: \<open>get_token_payload\<close> returns it, only
  \<open>get_access_token\<close> fails.
\<close>

theorem payload_without_access_token_is_returned:
  "read_secret no_faults (secrets tokenless_secret_state) ''meli-tokens''
       = Inr (Some (Dumps tokenless_body))
   \<and> field tokenless_body ''access_token'' = None
   \<and> get_token_payload ex_config no_faults tokenless_secret_state = Inr tokenless_body
   \<and> get_access_token ex_config no_faults tokenless_secret_state
       = Inl (RuntimeError ''No access_token stored in Secret Manager'')"
  by (simp add: tokenless_secret_state_def tokenless_body_def ex_config_def no_faults_def
      read_secret_def access_latest_def get_token_payload_def get_access_token_def require_def
      GCPSecretStorage_def)

section \<open>The rotation loop\<close>

lemma paced_after_no_sleep:
  "\<forall>ev \<in> set evs. \<not> is_sleep ev \<Longrightarrow> paced_after iv prev evs"
  by (induction evs arbitrary: prev) (auto split: event.splits)

lemma paced_after_append:
  "paced_after iv prev (xs @ ys) \<longleftrightarrow>
     paced_after iv prev xs \<and> paced_after iv (if xs = [] then prev else Some (last xs)) ys"
  by (induction xs arbitrary: prev) auto

lemma paced_after_any_prev:
  "paced_after iv None evs \<Longrightarrow> paced_after iv prev evs"
  by (cases evs) (auto split: event.splits)

lemma commit_and_persist_events:
  "\<exists>new. trace (snd (commit_and_persist self e td st)) = trace st @ new
         \<and> (\<forall>ev \<in> set new. \<not> is_sleep ev)
         \<and> (\<forall>r. fst (commit_and_persist self e td st) = Inr r
               \<longrightarrow> new \<noteq> [] \<and> last new = Log INFO refreshed_message)"
  by (simp add: commit_and_persist_def write_tokens_file_def Let_def emit_def
      split: prod.splits sum.splits)

lemma refresh_once_events:
  "\<exists>new. trace (snd (refresh_once self e st)) = trace st @ new
         \<and> (\<forall>ev \<in> set new. \<not> is_sleep ev)
         \<and> (\<forall>r. fst (refresh_once self e st) = Inr r
               \<longrightarrow> new \<noteq> [] \<and> last new = Log INFO refreshed_message)"
  using refresh_once_shape[of self e st]
proof (elim disjE exE)
  fix rt td
  assume eq: "refresh_once self e st
         = commit_and_persist self e td (emit (Http_post ''refresh_token'' rt) st)"
  from commit_and_persist_events[of self e td "emit (Http_post ''refresh_token'' rt) st"]
  obtain new where new:
    "trace (snd (refresh_once self e st)) = trace st @ Http_post ''refresh_token'' rt # new"
    "\<forall>ev \<in> set new. \<not> is_sleep ev"
    "\<forall>r. fst (refresh_once self e st) = Inr r \<longrightarrow> new \<noteq> [] \<and> last new = Log INFO refreshed_message"
    unfolding eq by (auto simp add: emit_def)
  show ?thesis
    by (rule exI[of _ "Http_post ''refresh_token'' rt # new"]) (use new in auto)
qed (auto simp add: emit_def)

text \<open>\<open>time.sleep\<close> returns for a duration that is not negative and fits.\<close>

lemma sleep_returns:
  assumes "0 \<le> d" and "sleep_fits e d"
  shows "sleep e d st = (Inr (), emit (Sleep d) st)"
proof -
  from assms(1) have nn: "0 \<le> d * SEC_TO_NS" by (simp add: SEC_TO_NS_def)
  with assms(2) have "d * SEC_TO_NS \<le> INT64_MAX" by (simp add: sleep_fits_def)
  moreover from nn have "\<not> d * SEC_TO_NS < INT64_MIN" by (simp add: INT64_MIN_def)
  moreover from assms(2) have "\<not> INT64_MAX < int (monotonic_ns e) + d * SEC_TO_NS"
    by (simp add: sleep_fits_def)
  ultimately show ?thesis
    using assms(1) by (simp add: sleep_def)
qed

lemma sleep_fits_shorter:
  assumes "sleep_fits e d" and "d' \<le> d"
  shows "sleep_fits e d'"
proof -
  from assms(2) have "d' * SEC_TO_NS \<le> d * SEC_TO_NS" by (simp add: SEC_TO_NS_def)
  with assms(1) show ?thesis by (simp add: sleep_fits_def)
qed

text \<open>A cycle whose \<open>refresh_once\<close> raises: the log line, the short sleep, the next cycle.\<close>

lemma failed_cycle_continues:
  assumes "0 < iv" and "sleep_fits e (min 600 iv)" and "fst (refresh_once self e st) = Inl exc"
  shows "\<exists>new. run_cycles self iv (e # es) st
                = run_cycles self iv es
                    (snd (refresh_once self e st)
                       \<lparr>trace := trace st @ new @ [Log ERROR loop_failed_message,
                                                    Sleep (min 600 iv)]\<rparr>)
              \<and> (\<forall>ev \<in> set new. \<not> is_sleep ev)"
proof -
  obtain st1 where ro: "refresh_once self e st = (Inl exc, st1)"
    using assms(3) by (cases "refresh_once self e st") simp
  from refresh_once_events[of self e st] ro obtain new where new:
    "trace st1 = trace st @ new" "\<forall>ev \<in> set new. \<not> is_sleep ev"
    by auto
  from assms(1) have "0 \<le> min 600 iv" by simp
  then have sl: "sleep e (min 600 iv) s = (Inr (), emit (Sleep (min 600 iv)) s)" for s
    using assms(2) by (rule sleep_returns)
  have "run_cycles self iv (e # es) st
          = run_cycles self iv es
              (st1\<lparr>trace := trace st @ new @ [Log ERROR loop_failed_message, Sleep (min 600 iv)]\<rparr>)"
    by (simp add: ro sl new(1) emit_def)
  with ro new(2) show ?thesis by auto
qed

text \<open>A cycle whose \<open>refresh_once\<close> returns: its log line, the full sleep, the next cycle.\<close>

lemma successful_cycle_continues:
  assumes "0 < iv" and "sleep_fits e iv" and "fst (refresh_once self e st) = Inr td"
  shows "\<exists>new. run_cycles self iv (e # es) st
                = run_cycles self iv es
                    (snd (refresh_once self e st)\<lparr>trace := trace st @ new @ [Sleep iv]\<rparr>)
              \<and> (\<forall>ev \<in> set new. \<not> is_sleep ev)
              \<and> new \<noteq> [] \<and> last new = Log INFO refreshed_message"
proof -
  obtain st1 where ro: "refresh_once self e st = (Inr td, st1)"
    using assms(3) by (cases "refresh_once self e st") simp
  from refresh_once_events[of self e st] ro obtain new where new:
    "trace st1 = trace st @ new" "\<forall>ev \<in> set new. \<not> is_sleep ev"
    "new \<noteq> []" "last new = Log INFO refreshed_message"
    by auto
  from assms(1) have "0 \<le> iv" by simp
  then have sl: "sleep e iv s = (Inr (), emit (Sleep iv) s)" for s
    using assms(2) by (rule sleep_returns)
  have "run_cycles self iv (e # es) st
          = run_cycles self iv es (st1\<lparr>trace := trace st @ new @ [Sleep iv]\<rparr>)"
    by (simp add: ro sl new(1) emit_def)
  with ro new(2,3,4) show ?thesis by auto
qed

text \<open>One pass through the body of the loop.\<close>

lemma run_cycles_step:
  assumes "0 < iv" and "sleep_fits e iv"
  shows "\<exists>new d. run_cycles self iv (e # es) st
                  = run_cycles self iv es
                      (snd (refresh_once self e st)\<lparr>trace := trace st @ new @ [Sleep d]\<rparr>)
           \<and> (\<forall>ev \<in> set new. \<not> is_sleep ev)
           \<and> new \<noteq> []
           \<and> ((\<exists>exc. fst (refresh_once self e st) = Inl exc
                  \<and> last new = Log ERROR loop_failed_message \<and> d = min 600 iv)
                \<or> (\<exists>td. fst (refresh_once self e st) = Inr td
                  \<and> last new = Log INFO refreshed_message \<and> d = iv))"
proof (cases "fst (refresh_once self e st)")
  case (Inl exc)
  have "sleep_fits e (min 600 iv)"
    by (rule sleep_fits_shorter[OF assms(2)]) simp
  from failed_cycle_continues[OF assms(1) this Inl, of es] obtain new where new:
    "run_cycles self iv (e # es) st
       = run_cycles self iv es
           (snd (refresh_once self e st)
              \<lparr>trace := trace st @ new @ [Log ERROR loop_failed_message, Sleep (min 600 iv)]\<rparr>)"
    "\<forall>ev \<in> set new. \<not> is_sleep ev"
    by blast
  show ?thesis
    by (intro exI[of _ "new @ [Log ERROR loop_failed_message]"] exI[of _ "min 600 iv"])
       (use new Inl in auto)
next
  case (Inr td)
  from successful_cycle_continues[OF assms Inr, of es] obtain new where new:
    "run_cycles self iv (e # es) st
       = run_cycles self iv es
           (snd (refresh_once self e st)\<lparr>trace := trace st @ new @ [Sleep iv]\<rparr>)"
    "\<forall>ev \<in> set new. \<not> is_sleep ev" "new \<noteq> []" "last new = Log INFO refreshed_message"
    by blast
  show ?thesis
    by (intro exI[of _ new] exI[of _ iv]) (use new Inr in auto)
qed

lemma run_cycles_keeps_running:
  assumes "0 < iv" and "\<forall>e \<in> set es. sleep_fits e iv"
  shows "fst (run_cycles self iv es st) = None
       \<and> (\<exists>new. trace (snd (run_cycles self iv es st)) = trace st @ new
                \<and> length (filter is_sleep new) = length es
                \<and> paced_after iv None new)"
  using assms(2)
proof (induction es arbitrary: st)
  case Nil
  show ?case by simp
next
  case (Cons e es)
  from Cons.prems have fits: "sleep_fits e iv" and rest_fit: "\<forall>e \<in> set es. sleep_fits e iv"
    by simp_all
  from run_cycles_step[OF assms(1) fits, of self es st] obtain new d where step:
    "run_cycles self iv (e # es) st
       = run_cycles self iv es (snd (refresh_once self e st)\<lparr>trace := trace st @ new @ [Sleep d]\<rparr>)"
    "\<forall>ev \<in> set new. \<not> is_sleep ev" "new \<noteq> []"
    "(last new = Log ERROR loop_failed_message \<and> d = min 600 iv)
       \<or> (last new = Log INFO refreshed_message \<and> d = iv)"
    by blast
  let ?st2 = "snd (refresh_once self e st)\<lparr>trace := trace st @ new @ [Sleep d]\<rparr>"
  from Cons.IH[OF rest_fit, of ?st2] obtain rest where rest:
    "fst (run_cycles self iv es ?st2) = None"
    "trace (snd (run_cycles self iv es ?st2)) = trace ?st2 @ rest"
    "length (filter is_sleep rest) = length es" "paced_after iv None rest"
    by auto
  have cycle: "paced_after iv None (new @ [Sleep d])"
    using step(2,3,4) by (auto simp add: paced_after_append paced_after_no_sleep)
  have "paced_after iv None ((new @ [Sleep d]) @ rest)"
    unfolding paced_after_append[of iv None "new @ [Sleep d]" rest]
    using cycle paced_after_any_prev[OF rest(4)] by simp
  moreover have "length (filter is_sleep ((new @ [Sleep d]) @ rest)) = length (e # es)"
    using step(2) rest(3) by (simp add: filter_False)
  moreover have "trace (snd (run_cycles self iv (e # es) st)) = trace st @ (new @ [Sleep d]) @ rest"
    unfolding step(1) rest(2) by simp
  moreover have "fst (run_cycles self iv (e # es) st) = None"
    unfolding step(1) by (rule rest(1))
  ultimately show ?case by blast
qed

text \<open>
  The interval of the loop is never zero, and it is positive unless a negative number
  of seconds was passed or configured.
\<close>

lemma loop_interval_positive:
  assumes "\<forall>n. interval_seconds = Some n \<longrightarrow> 0 \<le> n" and "0 \<le> rotation_interval_seconds self"
  shows "0 < loop_interval self interval_seconds"
  using assms
  by (cases interval_seconds) (auto simp add: loop_interval_def DEFAULT_ROTATION_INTERVAL_def)

text \<open>
  With a negative interval the first \<open>time.sleep\<close> raises and the loop is left, whether
  the refresh failed or not. With an interval beyond the 64 bits the sleep after a
  successful refresh raises.
\<close>

lemma sleep_negative:
  assumes "d < 0"
  shows "fst (sleep e d st) = Inl ValueError \<or> fst (sleep e d st) = Inl OverflowError"
  using assms by (simp add: sleep_def)

lemma run_cycles_negative_interval:
  assumes "iv < 0"
  shows "fst (run_cycles self iv (e # es) st) = Some ValueError
       \<or> fst (run_cycles self iv (e # es) st) = Some OverflowError"
proof -
  from assms have m: "min 600 iv < 0" by simp
  obtain r st1 where ro: "refresh_once self e st = (r, st1)"
    by (cases "refresh_once self e st")
  show ?thesis
  proof (cases r)
    case (Inl exc)
    obtain r2 st2 where sl: "sleep e (min 600 iv) (emit (Log ERROR loop_failed_message) st1) = (r2, st2)"
      by (cases "sleep e (min 600 iv) (emit (Log ERROR loop_failed_message) st1)")
    with sleep_negative[OF m, of e "emit (Log ERROR loop_failed_message) st1"]
    have "r2 = Inl ValueError \<or> r2 = Inl OverflowError" by simp
    then show ?thesis
      by (auto simp add: ro Inl sl)
  next
    case (Inr td)
    obtain r2 st2 where sl: "sleep e iv st1 = (r2, st2)"
      by (cases "sleep e iv st1")
    with sleep_negative[OF assms, of e st1]
    have "r2 = Inl ValueError \<or> r2 = Inl OverflowError" by simp
    then show ?thesis
      by (auto simp add: ro Inr sl)
  qed
qed

lemma run_cycles_overlong_interval:
  assumes "INT64_MAX < iv * SEC_TO_NS" and "fst (refresh_once self e st) = Inr td"
  shows "fst (run_cycles self iv (e # es) st) = Some OverflowError"
proof -
  obtain st1 where ro: "refresh_once self e st = (Inr td, st1)"
    using assms(2) by (cases "refresh_once self e st") simp
  from assms(1) have "sleep e iv st1 = (Inl OverflowError, st1)"
    by (simp add: sleep_def)
  then show ?thesis by (simp add: ro)
qed


text \<open>
  Claim C7, as the code has it. With a positive interval, and as long as \<open>time.sleep\<close>
  accepts the duration it is asked for, \<open>run_forever\<close> is not left because of a refresh
  failure: when \<open>refresh_once\<close> raises, the loop logs, sleeps \<open>min 600 interval\<close> and
  goes on with the next cycle; after a successful \<open>refresh_once\<close> it sleeps the whole
  interval and goes on. When the interval fits in every cycle, the loop is still running
  after any finite run of cycles, it has slept once per cycle, and each sleep follows the
  log line of its cycle.
\<close>

theorem run_forever_never_exits:
  assumes "0 < loop_interval self interval_seconds"
  shows "((\<forall>e \<in> set es. sleep_fits e (loop_interval self interval_seconds)) \<longrightarrow>
            fst (run_forever self interval_seconds es st) = None
          \<and> take (length (trace st)) (trace (snd (run_forever self interval_seconds es st)))
              = trace st
          \<and> length (filter is_sleep
               (drop (length (trace st)) (trace (snd (run_forever self interval_seconds es st)))))
              = length es
          \<and> paced_after (loop_interval self interval_seconds) None
               (drop (length (trace st)) (trace (snd (run_forever self interval_seconds es st))))
          \<and> (\<forall>e es'. es = e # es' \<longrightarrow>
               (\<exists>new d. run_forever self interval_seconds es st
                           = run_forever self interval_seconds es'
                               (snd (refresh_once self e st)
                                  \<lparr>trace := trace st @ new @ [Sleep d]\<rparr>)
                    \<and> (\<forall>ev \<in> set new. \<not> is_sleep ev)
                    \<and> new \<noteq> []
                    \<and> ((\<exists>exc. fst (refresh_once self e st) = Inl exc
                           \<and> last new = Log ERROR loop_failed_message
                           \<and> d = min 600 (loop_interval self interval_seconds))
                         \<or> (\<exists>td. fst (refresh_once self e st) = Inr td
                           \<and> last new = Log INFO refreshed_message
                           \<and> d = loop_interval self interval_seconds)))))
       \<and> (\<forall>e es' exc. es = e # es'
              \<and> sleep_fits e (min 600 (loop_interval self interval_seconds))
              \<and> fst (refresh_once self e st) = Inl exc \<longrightarrow>
            (\<exists>new. run_forever self interval_seconds es st
                      = run_forever self interval_seconds es'
                          (snd (refresh_once self e st)
                             \<lparr>trace := trace st @ new
                                 @ [Log ERROR loop_failed_message,
                                    Sleep (min 600 (loop_interval self interval_seconds))]\<rparr>)
                  \<and> (\<forall>ev \<in> set new. \<not> is_sleep ev)))"
proof -
  let ?iv = "loop_interval self interval_seconds"
  have whole: "fst (run_forever self interval_seconds es st) = None
          \<and> take (length (trace st)) (trace (snd (run_forever self interval_seconds es st)))
              = trace st
          \<and> length (filter is_sleep
               (drop (length (trace st)) (trace (snd (run_forever self interval_seconds es st)))))
              = length es
          \<and> paced_after ?iv None
               (drop (length (trace st)) (trace (snd (run_forever self interval_seconds es st))))"
    if fits: "\<forall>e \<in> set es. sleep_fits e ?iv"
  proof -
    from run_cycles_keeps_running[OF assms fits, of self st] obtain new where
      "fst (run_cycles self ?iv es st) = None"
      "trace (snd (run_cycles self ?iv es st)) = trace st @ new"
      "length (filter is_sleep new) = length es"
      "paced_after ?iv None new"
      by blast
    then show ?thesis by (simp add: run_forever_def)
  qed
  have cycle: "\<exists>new d. run_forever self interval_seconds es st
                           = run_forever self interval_seconds es'
                               (snd (refresh_once self e st)
                                  \<lparr>trace := trace st @ new @ [Sleep d]\<rparr>)
                    \<and> (\<forall>ev \<in> set new. \<not> is_sleep ev)
                    \<and> new \<noteq> []
                    \<and> ((\<exists>exc. fst (refresh_once self e st) = Inl exc
                           \<and> last new = Log ERROR loop_failed_message
                           \<and> d = min 600 ?iv)
                         \<or> (\<exists>td. fst (refresh_once self e st) = Inr td
                           \<and> last new = Log INFO refreshed_message
                           \<and> d = ?iv))"
    if fits: "\<forall>e \<in> set es. sleep_fits e ?iv" and es: "es = e # es'" for e es'
  proof -
    from fits es have "sleep_fits e ?iv" by simp
    from run_cycles_step[OF assms this, of self es' st] show ?thesis
      unfolding run_forever_def es .
  qed
  have failed: "\<exists>new. run_forever self interval_seconds es st
                      = run_forever self interval_seconds es'
                          (snd (refresh_once self e st)
                             \<lparr>trace := trace st @ new
                                 @ [Log ERROR loop_failed_message, Sleep (min 600 ?iv)]\<rparr>)
                  \<and> (\<forall>ev \<in> set new. \<not> is_sleep ev)"
    if "es = e # es' \<and> sleep_fits e (min 600 ?iv) \<and> fst (refresh_once self e st) = Inl exc"
    for e es' exc
  proof -
    from that have es: "es = e # es'" and f: "sleep_fits e (min 600 ?iv)"
      and r: "fst (refresh_once self e st) = Inl exc"
      by simp_all
    from failed_cycle_continues[OF assms f r, of es'] show ?thesis
      unfolding run_forever_def es .
  qed
  from whole cycle failed show ?thesis by blast
qed

theorem run_forever_never_exits_witness:
  "0 < loop_interval ex_rotator (Some 900)
   \<and> sleep_fits unreachable_env 900
   \<and> sleep_fits ex_env 900
   \<and> fst (refresh_once ex_rotator unreachable_env ex_state) = Inl RequestException
   \<and> fst (run_forever ex_rotator (Some 900) [unreachable_env, ex_env] ex_state) = None
   \<and> length (filter is_sleep
        (trace (snd (run_forever ex_rotator (Some 900) [unreachable_env, ex_env] ex_state)))) = 2
   \<and> filter is_sleep
        (trace (snd (run_forever ex_rotator (Some 900) [unreachable_env, ex_env] ex_state)))
       = [Sleep 600, Sleep 900]"
proof -
  have i: "0 < loop_interval ex_rotator (Some 900)" "loop_interval ex_rotator (Some 900) = 900"
    by (simp_all add: loop_interval_def)
  have f: "sleep_fits unreachable_env 900" "sleep_fits ex_env 900"
    by (simp_all add: sleep_fits_def unreachable_env_def example_defs SEC_TO_NS_def INT64_MAX_def)
  then have a: "\<forall>e \<in> set [unreachable_env, ex_env].
                  sleep_fits e (loop_interval ex_rotator (Some 900))"
    by (simp add: i(2))
  have r: "fst (refresh_once ex_rotator unreachable_env ex_state) = Inl RequestException"
    by (simp add: unreachable_env_def example_defs refresh_defs)
  have t: "trace ex_state = []"
    by (simp add: example_defs)
  have s: "filter is_sleep
        (trace (snd (run_forever ex_rotator (Some 900) [unreachable_env, ex_env] ex_state)))
       = [Sleep 600, Sleep 900]"
    by (simp add: run_forever_def loop_interval_def unreachable_env_def sleep_def
        SEC_TO_NS_def INT64_MAX_def INT64_MIN_def example_defs refresh_defs storage_defs)
  from run_forever_never_exits[OF i(1), of "[unreachable_env, ex_env]" ex_state] a
  have "fst (run_forever ex_rotator (Some 900) [unreachable_env, ex_env] ex_state) = None
      \<and> length (filter is_sleep (drop (length (trace ex_state))
           (trace (snd (run_forever ex_rotator (Some 900) [unreachable_env, ex_env] ex_state)))))
          = length [unreachable_env, ex_env]"
    by blast
  with i(1) f r s t show ?thesis by simp
qed

text \<open>
  The loop can be left. With \<open>interval_seconds = -5\<close> and a refresh that fails, the
  sleep of the handler raises \<open>ValueError\<close> and the loop ends without having slept. With
  \<open>interval_seconds = 10000000000\<close> and a refresh that succeeds, the sleep raises
  \<open>OverflowError\<close>.
\<close>

theorem run_forever_exits_on_bad_interval:
  "loop_interval ex_rotator (Some (- 5)) = - 5
   \<and> fst (refresh_once ex_rotator unreachable_env ex_state) = Inl RequestException
   \<and> fst (run_forever ex_rotator (Some (- 5)) [unreachable_env, ex_env] ex_state)
       = Some ValueError
   \<and> filter is_sleep
        (trace (snd (run_forever ex_rotator (Some (- 5)) [unreachable_env, ex_env] ex_state))) = []
   \<and> loop_interval ex_rotator (Some 10000000000) = 10000000000
   \<and> fst (refresh_once ex_rotator ex_env ex_state) = Inr ex_token_data
   \<and> fst (run_forever ex_rotator (Some 10000000000) [ex_env, ex_env] ex_state)
       = Some OverflowError
   \<and> filter is_sleep
        (trace (snd (run_forever ex_rotator (Some 10000000000) [ex_env, ex_env] ex_state))) = []"
  by (simp add: run_forever_def loop_interval_def unreachable_env_def sleep_def
      SEC_TO_NS_def INT64_MAX_def INT64_MIN_def example_defs refresh_defs storage_defs)

end
